theory Spec2Isabelle
  imports Main "HOL-Library.AList" "HOL-Library.Multiset" "HOL-Library.Sublist"
begin

section \<open>Data model of \<open>store/lib/grouping.ts\<close>\<close>

text \<open>
  The grouping engine takes cards, a metadata index and a list of grouping dimensions and
  returns leaf groups plus a flat hierarchy map. A failed property access on \<open>undefined\<close>
  (or a call of something that is not a function) is the only way the code fails; it is the
  value \<open>Inl TypeError\<close> of the model.
\<close>

datatype error = TypeError

fun bindE :: "error + 'a \<Rightarrow> ('a \<Rightarrow> error + 'b) \<Rightarrow> error + 'b" where
  "bindE (Inl e) f = Inl e"
| "bindE (Inr x) f = f x"

text \<open>
  The fields of \<open>Card\<close> that the engine reads. \<open>None\<close> stands for both \<open>null\<close> and an
  absent field (the code tests them with \<open>??\<close> or by truthiness, which do not tell the two
  apart). Numbers are the integers.
\<close>

record Card =
  code :: string
  type_code :: string
  permanent :: bool
  real_slot :: "string option"
  xp :: "int option"
  faction_code :: string
  faction2_code :: "string option"
  encounter_code :: "string option"
  cost :: "int option"
  pack_code :: string
  subtype_code :: "string option"

record Pack =
  p_code :: string
  p_cycle_code :: string
  p_position :: int
  p_reprint :: bool

record Cycle =
  c_code :: string
  c_position :: int

record EncounterSet =
  es_name :: string

record Metadata =
  packs :: "string \<rightharpoonup> Pack"
  cycles :: "string \<rightharpoonup> Cycle"
  encounterSets :: "string \<rightharpoonup> EncounterSet"

datatype GroupingType =
  Gnone | Gsubtype | Gtype | Gslot | Glevel | Gbase_upgrades
  | Gfaction | Gencounter_set | Gcost | Gcycle | Gpack

fun groupingName :: "GroupingType \<Rightarrow> string" where
  "groupingName Gnone = ''none''"
| "groupingName Gsubtype = ''subtype''"
| "groupingName Gtype = ''type''"
| "groupingName Gslot = ''slot''"
| "groupingName Glevel = ''level''"
| "groupingName Gbase_upgrades = ''base_upgrades''"
| "groupingName Gfaction = ''faction''"
| "groupingName Gencounter_set = ''encounter_set''"
| "groupingName Gcost = ''cost''"
| "groupingName Gcycle = ''cycle''"
| "groupingName Gpack = ''pack''"

definition NONE :: string where
  "NONE = ''none''"

definition LEVEL_0 :: string where
  "LEVEL_0 = ''level0''"

definition UPGRADE :: string where
  "UPGRADE = ''upgrade''"

text \<open>\<open>type Key = string | number\<close>.\<close>

datatype Key = KNum int | KStr string

text \<open>
  \<open>Number.prototype.toString\<close> on an integer: the decimal digits, with a leading minus
  sign for a negative number.
\<close>

definition digitChar :: "nat \<Rightarrow> char" where
  "digitChar d = char_of (48 + d)"

function showNat :: "nat \<Rightarrow> string" where
  "showNat n = (if n < 10 then [digitChar n] else showNat (n div 10) @ [digitChar (n mod 10)])"
  by pat_completeness auto
termination
  by (relation "measure id") auto

declare showNat.simps [simp del]

definition showInt :: "int \<Rightarrow> string" where
  "showInt i = (if i < 0 then CHR ''-'' # showNat (nat (- i)) else showNat (nat i))"

text \<open>
  A key as a string: the property name under which \<open>data[key]\<close> is stored, and the
  \<open>key\<close> that \<open>toGroupingResult\<close> writes.
\<close>

fun keyString :: "Key \<Rightarrow> string" where
  "keyString (KNum n) = showInt n"
| "keyString (KStr s) = s"

text \<open>
  \<open>Grouping\<close>: the accumulator of a partition. \<open>data\<close> is a JavaScript object used as
  a dictionary and read by key only, so it is a map; \<open>groupings\<close> is the ordered key list.
\<close>

record Grouping =
  data :: "string \<rightharpoonup> Card list"
  groupings :: "Key list"
  gtype :: GroupingType

text \<open>\<open>GroupingResult = { cards, key, type }\<close>.\<close>

record GroupingResult =
  g_cards :: "Card list"
  g_key :: string
  g_type :: string

text \<open>\<open>GroupTreeEntry = { key, type, count, parent }\<close>, \<open>parent\<close> being a key or null.\<close>

record GroupTreeEntry =
  e_key :: string
  e_type :: string
  e_count :: nat
  e_parent :: "string option"

text \<open>
  \<open>GroupedCards = { data, hierarchy }\<close>. The hierarchy object is a list of key/entry
  pairs with at most one pair per key (\<open>AList.update\<close> overwrites in place and appends
  a new key), so that its entries can be enumerated. The order of the list plays no role
  in what is proved.
\<close>

record GroupedCards =
  leaves :: "GroupingResult list"
  hierarchy :: "(string \<times> GroupTreeEntry) list"

text \<open>
  The comparators imported from \<open>./sorting\<close> are not part of the source at hand; they are
  parameters of the model, taken as pure three-way comparisons. A collator is its
  comparison function. \<open>sortNumerical\<close> receives the keys as they are (\<open>a as number\<close> is
  a cast without effect at run time).
\<close>

type_synonym Collator = "string \<Rightarrow> string \<Rightarrow> int"

record Sorting =
  sortTypesByOrder :: "string \<Rightarrow> string \<Rightarrow> int"
  sortBySlots :: "Collator \<Rightarrow> string \<Rightarrow> string \<Rightarrow> int"
  sortByFactionOrder :: "string \<Rightarrow> string \<Rightarrow> int"
  sortByEncounterSet :: "Metadata \<Rightarrow> Collator \<Rightarrow> string \<Rightarrow> string \<Rightarrow> int"
  sortNumerical :: "Key \<Rightarrow> Key \<Rightarrow> int"

section \<open>JavaScript primitives used by the engine\<close>

text \<open>
  \<open>Array.prototype.reduce\<close> with a callback that may throw: a left fold that stops at the
  first error.
\<close>

fun reduce :: "('b \<Rightarrow> 'a \<Rightarrow> error + 'b) \<Rightarrow> 'b \<Rightarrow> 'a list \<Rightarrow> error + 'b" where
  "reduce f acc [] = Inr acc"
| "reduce f acc (x # xs) = bindE (f acc x) (\<lambda>acc'. reduce f acc' xs)"

text \<open>
  \<open>Array.prototype.sort\<close> with a comparator: a stable sort, here insertion from the right,
  where an element goes before the first element it does not compare greater than. The
  comparator may throw, and the sort then throws. With two or more elements every element
  takes part in at least one comparison.
\<close>

fun insertSorted :: "('a \<Rightarrow> 'a \<Rightarrow> error + int) \<Rightarrow> 'a \<Rightarrow> 'a list \<Rightarrow> error + 'a list" where
  "insertSorted cmp x [] = Inr [x]"
| "insertSorted cmp x (y # ys) =
     bindE (cmp x y) (\<lambda>r.
       if r \<le> 0 then Inr (x # y # ys)
       else bindE (insertSorted cmp x ys) (\<lambda>zs. Inr (y # zs)))"

fun arraySort :: "('a \<Rightarrow> 'a \<Rightarrow> error + int) \<Rightarrow> 'a list \<Rightarrow> error + 'a list" where
  "arraySort cmp [] = Inr []"
| "arraySort cmp (x # xs) = bindE (arraySort cmp xs) (insertSorted cmp x)"

text \<open>The same sort with a comparator that cannot throw.\<close>

fun insertPure :: "('a \<Rightarrow> 'a \<Rightarrow> int) \<Rightarrow> 'a \<Rightarrow> 'a list \<Rightarrow> 'a list" where
  "insertPure cmp x [] = [x]"
| "insertPure cmp x (y # ys) = (if cmp x y \<le> 0 then x # y # ys else y # insertPure cmp x ys)"

fun sortPure :: "('a \<Rightarrow> 'a \<Rightarrow> int) \<Rightarrow> 'a list \<Rightarrow> 'a list" where
  "sortPure cmp [] = []"
| "sortPure cmp (x # xs) = insertPure cmp x (sortPure cmp xs)"

text \<open>
  The accumulators are object literals, so a key that the object does not own is still
  found when \<open>Object.prototype\<close> has a member of that name; what is found there is
  truthy and is not an array. A read finds nothing, the object's own value, or the member
  of \<open>Object.prototype\<close> of the given name.
\<close>

definition objectPrototypeKeys :: "string list" where
  "objectPrototypeKeys =
     [''constructor'', ''hasOwnProperty'', ''isPrototypeOf'', ''propertyIsEnumerable'',
      ''toLocaleString'', ''toString'', ''valueOf'', ''__proto__'',
      ''__defineGetter__'', ''__defineSetter__'', ''__lookupGetter__'', ''__lookupSetter__'']"

datatype 'a property = Absent | Own 'a | Inherited string

definition getProp :: "(string \<rightharpoonup> 'a) \<Rightarrow> string \<Rightarrow> 'a property" where
  "getProp obj k =
     (case obj k of
        Some v \<Rightarrow> Own v
      | None \<Rightarrow> if k \<in> set objectPrototypeKeys then Inherited k else Absent)"

text \<open>Truthiness of an optional string and of an optional number.\<close>

fun truthyStr :: "string option \<Rightarrow> bool" where
  "truthyStr None = False"
| "truthyStr (Some s) = (s \<noteq> [])"

fun truthyNum :: "int option \<Rightarrow> bool" where
  "truthyNum None = False"
| "truthyNum (Some n) = (n \<noteq> 0)"

section \<open>The partitioner\<close>

text \<open>
  \<open>toGroupingResult\<close>. A key of \<open>groupings\<close> without a bucket would give a result whose
  \<open>cards\<close> is \<open>undefined\<close> and fails at its first use; the model reports it at once.
\<close>

fun toResults :: "Grouping \<Rightarrow> Key list \<Rightarrow> error + GroupingResult list" where
  "toResults grouping [] = Inr []"
| "toResults grouping (k # ks) =
     (case data grouping (keyString k) of
        None \<Rightarrow> Inl TypeError
      | Some bucket \<Rightarrow>
          bindE (toResults grouping ks) (\<lambda>rs.
            Inr (\<lparr>g_cards = bucket, g_key = keyString k,
                  g_type = groupingName (gtype grouping)\<rparr> # rs)))"

definition toGroupingResult :: "Grouping \<Rightarrow> error + GroupingResult list" where
  "toGroupingResult grouping = toResults grouping (groupings grouping)"

text \<open>
  \<open>omitEmptyGroupings\<close>: the \<open>for\<close> loop from index \<open>i\<close>. The loop header increments
  \<open>i\<close> after every iteration, and the \<open>else\<close> branch increments it once more.
\<close>

function omitEmptyFrom :: "nat \<Rightarrow> Grouping \<Rightarrow> error + Grouping" where
  "omitEmptyFrom i grouping =
     (if i < length (groupings grouping) then
        (case data grouping (keyString (groupings grouping ! i)) of
           None \<Rightarrow> Inl TypeError
         | Some bucket \<Rightarrow>
             if bucket = [] then
               omitEmptyFrom (i + 1)
                 (grouping\<lparr>data := (data grouping)(keyString (groupings grouping ! i) := None),
                            groupings := take i (groupings grouping) @ drop (Suc i) (groupings grouping)\<rparr>)
             else omitEmptyFrom (i + 1 + 1) grouping)
      else Inr grouping)"
  by pat_completeness auto
termination
  by (relation "measure (\<lambda>(i, g). length (groupings g) - i)") auto

declare omitEmptyFrom.simps [simp del]

definition omitEmptyGroupings :: "Grouping \<Rightarrow> error + Grouping" where
  "omitEmptyGroupings grouping = omitEmptyFrom 0 grouping"

text \<open>
  The body shared by the eight reducers that create their buckets on demand:
  \<open>if (!acc.data[k]) { acc.data[k] = [card]; acc.groupings.push(k) } else
  acc.data[k].push(card)\<close>. An inherited property is truthy and has no \<open>push\<close>.
\<close>

definition addToBucket :: "Key \<Rightarrow> Card \<Rightarrow> Grouping \<Rightarrow> error + Grouping" where
  "addToBucket k crd acc =
     (case getProp (data acc) (keyString k) of
        Absent \<Rightarrow>
          Inr (acc\<lparr>data := (data acc)(keyString k \<mapsto> [crd]),
                    groupings := groupings acc @ [k]\<rparr>)
      | Own bucket \<Rightarrow> Inr (acc\<lparr>data := (data acc)(keyString k \<mapsto> bucket @ [crd])\<rparr>)
      | Inherited member \<Rightarrow> Inl TypeError)"

definition groupInto :: "GroupingType \<Rightarrow> (Card \<Rightarrow> error + Key) \<Rightarrow> Card list \<Rightarrow> error + Grouping" where
  "groupInto t keyOf cards =
     reduce (\<lambda>acc crd. bindE (keyOf crd) (\<lambda>k. addToBucket k crd acc))
       \<lparr>data = Map.empty, groupings = [], gtype = t\<rparr> cards"

text \<open>What follows every reducer: drop empty buckets, sort the keys, build the results.\<close>

definition finishGrouping :: "(Key \<Rightarrow> Key \<Rightarrow> error + int) \<Rightarrow> Grouping \<Rightarrow> error + GroupingResult list" where
  "finishGrouping cmp result =
     bindE (omitEmptyGroupings result) (\<lambda>r.
       bindE (arraySort cmp (groupings r)) (\<lambda>ks.
         toGroupingResult (r\<lparr>groupings := ks\<rparr>)))"

definition onStrings :: "(string \<Rightarrow> string \<Rightarrow> int) \<Rightarrow> Key \<Rightarrow> Key \<Rightarrow> error + int" where
  "onStrings cmp a b = Inr (cmp (keyString a) (keyString b))"

subsection \<open>The key of a card in each dimension\<close>

definition typeCodeKey :: "Card \<Rightarrow> error + Key" where
  "typeCodeKey crd = Inr (KStr (type_code crd))"

definition slotKey :: "Card \<Rightarrow> error + Key" where
  "slotKey crd =
     Inr (KStr (if permanent crd then ''permanent''
                else (case real_slot crd of None \<Rightarrow> NONE | Some s \<Rightarrow> s)))"

definition levelKey :: "Card \<Rightarrow> error + Key" where
  "levelKey crd = Inr (case xp crd of None \<Rightarrow> KStr NONE | Some n \<Rightarrow> KNum n)"

definition factionKey :: "Card \<Rightarrow> error + Key" where
  "factionKey crd =
     Inr (KStr (if truthyStr (faction2_code crd) then ''multiclass'' else faction_code crd))"

definition encounterSetKey :: "Card \<Rightarrow> error + Key" where
  "encounterSetKey crd =
     Inr (KStr (case encounter_code crd of None \<Rightarrow> NONE | Some s \<Rightarrow> s))"

definition costKey :: "Card \<Rightarrow> error + Key" where
  "costKey crd = Inr (case cost crd of None \<Rightarrow> KStr NONE | Some n \<Rightarrow> KNum n)"

text \<open>
  \<open>metadata.cycles[metadata.packs[card.pack_code].cycle_code].code\<close>: reading a field of a
  missing pack or cycle throws.
\<close>

definition cycleKey :: "Metadata \<Rightarrow> Card \<Rightarrow> error + Key" where
  "cycleKey metadata crd =
     (case packs metadata (pack_code crd) of
        None \<Rightarrow> Inl TypeError
      | Some pack \<Rightarrow>
          (case cycles metadata (p_cycle_code pack) of
             None \<Rightarrow> Inl TypeError
           | Some cycle \<Rightarrow> Inr (KStr (c_code cycle))))"

text \<open>
  The pack a card is grouped under: its own pack, or the pack stored under the code
  \<open>cycle_code + "c"\<close> (encounter card) or \<open>cycle_code + "p"\<close> (player card) when that
  pack exists and has a truthy \<open>reprint\<close>.
\<close>

definition reprintPackCode :: "Pack \<Rightarrow> Card \<Rightarrow> string" where
  "reprintPackCode pack crd =
     p_cycle_code pack @ (if truthyStr (encounter_code crd) then ''c'' else ''p'')"

definition resolvePack :: "Metadata \<Rightarrow> Card \<Rightarrow> error + Pack" where
  "resolvePack metadata crd =
     (case packs metadata (pack_code crd) of
        None \<Rightarrow> Inl TypeError
      | Some pack \<Rightarrow>
          (case packs metadata (reprintPackCode pack crd) of
             None \<Rightarrow> Inr pack
           | Some reprintPack \<Rightarrow> if p_reprint reprintPack then Inr reprintPack else Inr pack))"

definition packKey :: "Metadata \<Rightarrow> Card \<Rightarrow> error + Key" where
  "packKey metadata crd = bindE (resolvePack metadata crd) (\<lambda>pack. Inr (KStr (p_code pack)))"

subsection \<open>The comparators written in the source\<close>

definition numericalOrder :: "Sorting \<Rightarrow> Key \<Rightarrow> Key \<Rightarrow> error + int" where
  "numericalOrder sorting a b =
     Inr (if a = KStr NONE then - 1 else if b = KStr NONE then 1 else sortNumerical sorting a b)"

definition cyclePosition :: "Metadata \<Rightarrow> string \<Rightarrow> error + int" where
  "cyclePosition metadata k =
     (case cycles metadata k of None \<Rightarrow> Inl TypeError | Some cycle \<Rightarrow> Inr (c_position cycle))"

definition cycleOrder :: "Metadata \<Rightarrow> Key \<Rightarrow> Key \<Rightarrow> error + int" where
  "cycleOrder metadata a b =
     bindE (cyclePosition metadata (keyString a)) (\<lambda>pa.
       bindE (cyclePosition metadata (keyString b)) (\<lambda>pb. Inr (pa - pb)))"

definition packCycle :: "Metadata \<Rightarrow> string \<Rightarrow> error + Cycle option" where
  "packCycle metadata k =
     (case packs metadata k of
        None \<Rightarrow> Inl TypeError
      | Some pack \<Rightarrow> Inr (cycles metadata (p_cycle_code pack)))"

definition packOrder :: "Metadata \<Rightarrow> Key \<Rightarrow> Key \<Rightarrow> error + int" where
  "packOrder metadata a b =
     bindE (packCycle metadata (keyString a)) (\<lambda>aCycle.
       bindE (packCycle metadata (keyString b)) (\<lambda>bCycle.
         (case aCycle of
            None \<Rightarrow> Inl TypeError
          | Some ac \<Rightarrow>
              (case bCycle of
                 None \<Rightarrow> Inl TypeError
               | Some bc \<Rightarrow>
                   if c_position ac \<noteq> c_position bc then Inr (c_position ac - c_position bc)
                   else (case packs metadata (keyString a) of
                           None \<Rightarrow> Inl TypeError
                         | Some pa \<Rightarrow>
                             (case packs metadata (keyString b) of
                                None \<Rightarrow> Inl TypeError
                              | Some pb \<Rightarrow> Inr (p_position pa - p_position pb)))))))"

subsection \<open>The ten partitioning functions and their dispatch\<close>

definition groupByTypeCode :: "Sorting \<Rightarrow> Card list \<Rightarrow> error + GroupingResult list" where
  "groupByTypeCode sorting cards =
     bindE (groupInto Gtype typeCodeKey cards)
       (finishGrouping (onStrings (sortTypesByOrder sorting)))"

definition groupBySlots :: "Sorting \<Rightarrow> Card list \<Rightarrow> Collator \<Rightarrow> error + GroupingResult list" where
  "groupBySlots sorting cards collator =
     bindE (groupInto Gslot slotKey cards)
       (finishGrouping (onStrings (sortBySlots sorting collator)))"

definition groupByLevel :: "Sorting \<Rightarrow> Card list \<Rightarrow> error + GroupingResult list" where
  "groupByLevel sorting cards =
     bindE (groupInto Glevel levelKey cards) (finishGrouping (numericalOrder sorting))"

definition groupByFaction :: "Sorting \<Rightarrow> Card list \<Rightarrow> error + GroupingResult list" where
  "groupByFaction sorting cards =
     bindE (groupInto Gfaction factionKey cards)
       (finishGrouping (onStrings (sortByFactionOrder sorting)))"

definition groupByEncounterSet ::
  "Sorting \<Rightarrow> Card list \<Rightarrow> Metadata \<Rightarrow> Collator \<Rightarrow> error + GroupingResult list" where
  "groupByEncounterSet sorting cards metadata collator =
     bindE (groupInto Gencounter_set encounterSetKey cards)
       (finishGrouping (onStrings (sortByEncounterSet sorting metadata collator)))"

definition groupByCost :: "Sorting \<Rightarrow> Card list \<Rightarrow> error + GroupingResult list" where
  "groupByCost sorting cards =
     bindE (groupInto Gcost costKey cards) (finishGrouping (numericalOrder sorting))"

definition groupByCycle :: "Card list \<Rightarrow> Metadata \<Rightarrow> error + GroupingResult list" where
  "groupByCycle cards metadata =
     bindE (groupInto Gcycle (cycleKey metadata) cards) (finishGrouping (cycleOrder metadata))"

definition groupByPack :: "Card list \<Rightarrow> Metadata \<Rightarrow> error + GroupingResult list" where
  "groupByPack cards metadata =
     bindE (groupInto Gpack (packKey metadata) cards) (finishGrouping (packOrder metadata))"

text \<open>
  The two dimensions with fixed buckets push into a bucket that exists from the start.
\<close>

definition pushTo :: "string \<Rightarrow> Card \<Rightarrow> Grouping \<Rightarrow> error + Grouping" where
  "pushTo k crd acc =
     (case data acc k of
        None \<Rightarrow> Inl TypeError
      | Some bucket \<Rightarrow> Inr (acc\<lparr>data := (data acc)(k \<mapsto> bucket @ [crd])\<rparr>))"

definition level0VsUpgradeStep :: "Grouping \<Rightarrow> Card \<Rightarrow> error + Grouping" where
  "level0VsUpgradeStep acc crd =
     (if \<not> truthyNum (xp crd) then pushTo LEVEL_0 crd acc else pushTo UPGRADE crd acc)"

definition groupByLevel0VsUpgrade :: "Card list \<Rightarrow> error + GroupingResult list" where
  "groupByLevel0VsUpgrade cards =
     bindE (reduce level0VsUpgradeStep
              \<lparr>data = [LEVEL_0 \<mapsto> [], UPGRADE \<mapsto> []],
               groupings = [KStr LEVEL_0, KStr UPGRADE], gtype = Gbase_upgrades\<rparr> cards)
       (\<lambda>results. bindE (omitEmptyGroupings results) toGroupingResult)"

definition subtypeOf :: "Card \<Rightarrow> string" where
  "subtypeOf crd = (case subtype_code crd of None \<Rightarrow> NONE | Some s \<Rightarrow> s)"

definition subtypeStep :: "Grouping \<Rightarrow> Card \<Rightarrow> error + Grouping" where
  "subtypeStep acc crd =
     (case getProp (data acc) (subtypeOf crd) of
        Absent \<Rightarrow> Inr acc
      | Own bucket \<Rightarrow> Inr (acc\<lparr>data := (data acc)(subtypeOf crd \<mapsto> bucket @ [crd])\<rparr>)
      | Inherited member \<Rightarrow> Inl TypeError)"

definition groupBySubtypeCode :: "Card list \<Rightarrow> error + GroupingResult list" where
  "groupBySubtypeCode cards =
     bindE (reduce subtypeStep
              \<lparr>data = [NONE \<mapsto> [], ''weakness'' \<mapsto> [], ''basicweakness'' \<mapsto> []],
               groupings = [KStr NONE, KStr ''weakness'', KStr ''basicweakness''],
               gtype = Gsubtype\<rparr> cards)
       (\<lambda>results. bindE (omitEmptyGroupings results) toGroupingResult)"

fun applyGrouping ::
  "Sorting \<Rightarrow> Card list \<Rightarrow> GroupingType \<Rightarrow> Metadata \<Rightarrow> Collator \<Rightarrow> error + GroupingResult list" where
  "applyGrouping sorting cards Gnone metadata collator =
     Inr [\<lparr>g_cards = cards, g_key = ''all'', g_type = ''none''\<rparr>]"
| "applyGrouping sorting cards Gsubtype metadata collator = groupBySubtypeCode cards"
| "applyGrouping sorting cards Gtype metadata collator = groupByTypeCode sorting cards"
| "applyGrouping sorting cards Gslot metadata collator = groupBySlots sorting cards collator"
| "applyGrouping sorting cards Glevel metadata collator = groupByLevel sorting cards"
| "applyGrouping sorting cards Gbase_upgrades metadata collator = groupByLevel0VsUpgrade cards"
| "applyGrouping sorting cards Gfaction metadata collator = groupByFaction sorting cards"
| "applyGrouping sorting cards Gencounter_set metadata collator =
     groupByEncounterSet sorting cards metadata collator"
| "applyGrouping sorting cards Gcost metadata collator = groupByCost sorting cards"
| "applyGrouping sorting cards Gcycle metadata collator = groupByCycle cards metadata"
| "applyGrouping sorting cards Gpack metadata collator = groupByPack cards metadata"

section \<open>The hierarchy builder\<close>

text \<open>
  \<open>key.includes("|") ? key.split("|").slice(0, -1).join("|") : null\<close>, with
  \<open>String.prototype.split\<close> and \<open>Array.prototype.join\<close> for a separator.
\<close>

fun splitOn :: "char \<Rightarrow> string \<Rightarrow> string list" where
  "splitOn sep [] = [[]]"
| "splitOn sep (c # cs) =
     (if c = sep then [] # splitOn sep cs
      else (case splitOn sep cs of [] \<Rightarrow> [[c]] | s # ss \<Rightarrow> (c # s) # ss))"

fun joinWith :: "string \<Rightarrow> string list \<Rightarrow> string" where
  "joinWith sep [] = []"
| "joinWith sep [s] = s"
| "joinWith sep (s # t # ss) = s @ sep @ joinWith sep (t # ss)"

definition parentKey :: "string \<Rightarrow> string option" where
  "parentKey k =
     (if CHR ''|'' \<in> set k then Some (joinWith ''|'' (butlast (splitOn CHR ''|'' k))) else None)"

text \<open>\<open>hierarchy[g.key] = { key: g.key, type: g.type, count: g.cards.length, parent }\<close>.\<close>

definition entryOf :: "GroupingResult \<Rightarrow> string option \<Rightarrow> GroupTreeEntry" where
  "entryOf g parent =
     \<lparr>e_key = g_key g, e_type = g_type g, e_count = length (g_cards g), e_parent = parent\<rparr>"

definition register ::
  "GroupingResult \<Rightarrow> string option \<Rightarrow> (string \<times> GroupTreeEntry) list \<Rightarrow> (string \<times> GroupTreeEntry) list" where
  "register g parent hier = AList.update (g_key g) (entryOf g parent) hier"

text \<open>
  The body of \<open>for (const g of expanded)\<close>: the child gets the key and type of its parent
  as a prefix and is recorded with the parent's key.
\<close>

definition childOf :: "GroupingResult \<Rightarrow> GroupingResult \<Rightarrow> GroupingResult" where
  "childOf grp g =
     g\<lparr>g_key := g_key grp @ ''|'' @ g_key g, g_type := g_type grp @ ''|'' @ g_type g\<rparr>"

definition registerGroup ::
  "GroupingResult \<Rightarrow> GroupingResult list \<Rightarrow> (string \<times> GroupTreeEntry) list \<Rightarrow> (string \<times> GroupTreeEntry) list" where
  "registerGroup grp children hier =
     foldl (\<lambda>h g. register g (Some (g_key grp)) h)
       (register grp (parentKey (g_key grp)) hier) children"

text \<open>
  The \<open>while (j < data.length)\<close> loop of one expansion pass, from index \<open>j\<close>:
  \<open>data.splice(j, 1, ...expanded); j += expanded.length\<close>.
\<close>

function expandFrom ::
  "Sorting \<Rightarrow> GroupingType \<Rightarrow> Metadata \<Rightarrow> Collator \<Rightarrow> nat \<Rightarrow> GroupingResult list \<Rightarrow>
   (string \<times> GroupTreeEntry) list \<Rightarrow> error + (GroupingResult list \<times> (string \<times> GroupTreeEntry) list)" where
  "expandFrom sorting grouping metadata collator j groups hier =
     (if j < length groups then
        (case applyGrouping sorting (g_cards (groups ! j)) grouping metadata collator of
           Inl e \<Rightarrow> Inl e
         | Inr expanded \<Rightarrow>
             expandFrom sorting grouping metadata collator (j + length expanded)
               (take j groups @ map (childOf (groups ! j)) expanded @ drop (Suc j) groups)
               (registerGroup (groups ! j) (map (childOf (groups ! j)) expanded) hier))
      else Inr (groups, hier))"
  by pat_completeness auto
termination
  by (relation "measure (\<lambda>(sorting, grouping, metadata, collator, j, groups, hier). length groups - j)")
    auto

declare expandFrom.simps [simp del]

text \<open>The \<open>for (let i = 1; i < groupings.length; i++)\<close> loop over the remaining dimensions.\<close>

fun expandAll ::
  "Sorting \<Rightarrow> GroupingType list \<Rightarrow> Metadata \<Rightarrow> Collator \<Rightarrow> GroupingResult list \<Rightarrow>
   (string \<times> GroupTreeEntry) list \<Rightarrow> error + (GroupingResult list \<times> (string \<times> GroupTreeEntry) list)" where
  "expandAll sorting [] metadata collator groups hier = Inr (groups, hier)"
| "expandAll sorting (grouping # rest) metadata collator groups hier =
     bindE (expandFrom sorting grouping metadata collator 0 groups hier)
       (\<lambda>(groups', hier'). expandAll sorting rest metadata collator groups' hier')"

text \<open>
  \<open>getGroupedCards\<close>. The caller's comparison function is taken as pure. The field
  \<open>data\<close> of the result is called \<open>leaves\<close> here.
\<close>

definition sortCards :: "(Card \<Rightarrow> Card \<Rightarrow> int) \<Rightarrow> GroupingResult \<Rightarrow> GroupingResult" where
  "sortCards sortFunction grp = grp\<lparr>g_cards := sortPure sortFunction (g_cards grp)\<rparr>"

definition getGroupedCards ::
  "Sorting \<Rightarrow> GroupingType list \<Rightarrow> Card list \<Rightarrow> (Card \<Rightarrow> Card \<Rightarrow> int) \<Rightarrow> Metadata \<Rightarrow> Collator \<Rightarrow>
   error + GroupedCards" where
  "getGroupedCards sorting groupings0 cards sortFunction metadata collator =
     (let groupings = (if groupings0 \<noteq> [] then groupings0 else [Gnone]) in
      bindE (applyGrouping sorting cards (hd groupings) metadata collator) (\<lambda>groups0.
        bindE (if length groupings > 1
               then expandAll sorting (tl groupings) metadata collator groups0 []
               else Inr (groups0, foldl (\<lambda>h g. register g None h) [] groups0))
          (\<lambda>(groups, hier).
             Inr \<lparr>leaves = map (sortCards sortFunction) groups, hierarchy = hier\<rparr>)))"

section \<open>Label resolution\<close>







section \<open>Card arrays as objects\<close>

text \<open>
  \<open>applyGrouping\<close> returns, for \<open>"none"\<close>, a group whose \<open>cards\<close> is the array it was
  given, and for every other dimension groups with arrays of their own; the last loop of
  \<open>getGroupedCards\<close> sorts the arrays of the leaf groups in place. To follow which array
  that loop writes to, the card arrays live in a store and a group holds a reference. The
  hierarchy map holds keys, types and counts only and is left out of this reading.
\<close>

record Store =
  arrays :: "nat \<rightharpoonup> Card list"
  nextRef :: nat

record GroupRef =
  r_cards :: nat
  r_key :: string
  r_type :: string

fun allocate :: "GroupingResult list \<Rightarrow> Store \<Rightarrow> GroupRef list \<times> Store" where
  "allocate [] st = ([], st)"
| "allocate (g # gs) st =
     (case allocate gs (st\<lparr>arrays := (arrays st)(nextRef st \<mapsto> g_cards g),
                            nextRef := Suc (nextRef st)\<rparr>) of
        (rs, st') \<Rightarrow> (\<lparr>r_cards = nextRef st, r_key = g_key g, r_type = g_type g\<rparr> # rs, st'))"

definition applyGroupingAt ::
  "Sorting \<Rightarrow> Store \<Rightarrow> nat \<Rightarrow> GroupingType \<Rightarrow> Metadata \<Rightarrow> Collator \<Rightarrow> error + (GroupRef list \<times> Store)" where
  "applyGroupingAt sorting st cards grouping metadata collator =
     (case arrays st cards of
        None \<Rightarrow> Inl TypeError
      | Some cs \<Rightarrow>
          if grouping = Gnone
          then Inr ([\<lparr>r_cards = cards, r_key = ''all'', r_type = ''none''\<rparr>], st)
          else bindE (applyGrouping sorting cs grouping metadata collator)
                 (\<lambda>gs. Inr (allocate gs st)))"

definition childRef :: "GroupRef \<Rightarrow> GroupRef \<Rightarrow> GroupRef" where
  "childRef grp g =
     g\<lparr>r_key := r_key grp @ ''|'' @ r_key g, r_type := r_type grp @ ''|'' @ r_type g\<rparr>"

function expandFromAt ::
  "Sorting \<Rightarrow> GroupingType \<Rightarrow> Metadata \<Rightarrow> Collator \<Rightarrow> nat \<Rightarrow> GroupRef list \<Rightarrow> Store \<Rightarrow>
   error + (GroupRef list \<times> Store)" where
  "expandFromAt sorting grouping metadata collator j groups st =
     (if j < length groups then
        (case applyGroupingAt sorting st (r_cards (groups ! j)) grouping metadata collator of
           Inl e \<Rightarrow> Inl e
         | Inr (expanded, st') \<Rightarrow>
             expandFromAt sorting grouping metadata collator (j + length expanded)
               (take j groups @ map (childRef (groups ! j)) expanded @ drop (Suc j) groups) st')
      else Inr (groups, st))"
  by pat_completeness auto
termination
  by (relation "measure (\<lambda>(sorting, grouping, metadata, collator, j, groups, st). length groups - j)")
    auto

declare expandFromAt.simps [simp del]

fun expandAllAt ::
  "Sorting \<Rightarrow> GroupingType list \<Rightarrow> Metadata \<Rightarrow> Collator \<Rightarrow> GroupRef list \<Rightarrow> Store \<Rightarrow>
   error + (GroupRef list \<times> Store)" where
  "expandAllAt sorting [] metadata collator groups st = Inr (groups, st)"
| "expandAllAt sorting (grouping # rest) metadata collator groups st =
     bindE (expandFromAt sorting grouping metadata collator 0 groups st)
       (\<lambda>(groups', st'). expandAllAt sorting rest metadata collator groups' st')"

fun sortAllAt :: "(Card \<Rightarrow> Card \<Rightarrow> int) \<Rightarrow> GroupRef list \<Rightarrow> Store \<Rightarrow> error + Store" where
  "sortAllAt sortFunction [] st = Inr st"
| "sortAllAt sortFunction (g # gs) st =
     (case arrays st (r_cards g) of
        None \<Rightarrow> Inl TypeError
      | Some cs \<Rightarrow>
          sortAllAt sortFunction gs
            (st\<lparr>arrays := (arrays st)(r_cards g \<mapsto> sortPure sortFunction cs)\<rparr>))"

definition getGroupedCardsAt ::
  "Sorting \<Rightarrow> GroupingType list \<Rightarrow> Store \<Rightarrow> nat \<Rightarrow> (Card \<Rightarrow> Card \<Rightarrow> int) \<Rightarrow> Metadata \<Rightarrow> Collator \<Rightarrow>
   error + (GroupRef list \<times> Store)" where
  "getGroupedCardsAt sorting groupings0 st cards sortFunction metadata collator =
     (let groupings = (if groupings0 \<noteq> [] then groupings0 else [Gnone]) in
      bindE (applyGroupingAt sorting st cards (hd groupings) metadata collator)
        (\<lambda>(groups0, st0).
           bindE (expandAllAt sorting (tl groupings) metadata collator groups0 st0)
             (\<lambda>(groups, st1).
                bindE (sortAllAt sortFunction groups st1) (\<lambda>st2. Inr (groups, st2)))))"

section \<open>Vocabulary of the properties\<close>

text \<open>The name of the bucket of a card, for a key derivation that may fail.\<close>

definition keyNameOf :: "(Card \<Rightarrow> error + Key) \<Rightarrow> Card \<Rightarrow> string option" where
  "keyNameOf keyOf c = (case keyOf c of Inl e \<Rightarrow> None | Inr k \<Rightarrow> Some (keyString k))"

text \<open>
  The state of an on-demand accumulator after the cards \<open>cs\<close>: the keys are distinct as
  property names, they are the bucket names of the cards, and each bucket holds the cards
  of its name in their order.
\<close>

definition grouped :: "(Card \<Rightarrow> error + Key) \<Rightarrow> Card list \<Rightarrow> Grouping \<Rightarrow> bool" where
  "grouped keyOf cs acc \<longleftrightarrow>
     distinct (map keyString (groupings acc)) \<and>
     Some ` keyString ` set (groupings acc) = keyNameOf keyOf ` set cs \<and>
     (\<forall>s. data acc s =
        (if s \<in> keyString ` set (groupings acc)
         then Some (filter (\<lambda>c. keyNameOf keyOf c = Some s) cs) else None))"

definition bucketResult ::
  "(Card \<Rightarrow> error + Key) \<Rightarrow> Card list \<Rightarrow> GroupingType \<Rightarrow> Key \<Rightarrow> GroupingResult" where
  "bucketResult keyOf cs t k =
     \<lparr>g_cards = filter (\<lambda>c. keyNameOf keyOf c = Some (keyString k)) cs,
      g_key = keyString k, g_type = groupingName t\<rparr>"

definition level0Buckets :: "Card list \<Rightarrow> Card list \<Rightarrow> GroupingType \<Rightarrow> Grouping" where
  "level0Buckets a b t =
     \<lparr>data = [LEVEL_0 \<mapsto> a, UPGRADE \<mapsto> b],
      groupings = [KStr LEVEL_0, KStr UPGRADE], gtype = t\<rparr>"

definition subtypeBuckets :: "Card list \<Rightarrow> Card list \<Rightarrow> Card list \<Rightarrow> GroupingType \<Rightarrow> Grouping" where
  "subtypeBuckets a b d t =
     \<lparr>data = [NONE \<mapsto> a, ''weakness'' \<mapsto> b, ''basicweakness'' \<mapsto> d],
      groupings = [KStr NONE, KStr ''weakness'', KStr ''basicweakness''], gtype = t\<rparr>"

text \<open>
  The key derivation of the eight dimensions that create buckets on demand, and the
  segment such a dimension takes from a code of the card or of the metadata.
\<close>

fun keyOfDimension :: "Metadata \<Rightarrow> GroupingType \<Rightarrow> (Card \<Rightarrow> error + Key) option" where
  "keyOfDimension metadata Gtype = Some typeCodeKey"
| "keyOfDimension metadata Gslot = Some slotKey"
| "keyOfDimension metadata Glevel = Some levelKey"
| "keyOfDimension metadata Gfaction = Some factionKey"
| "keyOfDimension metadata Gencounter_set = Some encounterSetKey"
| "keyOfDimension metadata Gcost = Some costKey"
| "keyOfDimension metadata Gcycle = Some (cycleKey metadata)"
| "keyOfDimension metadata Gpack = Some (packKey metadata)"
| "keyOfDimension metadata grouping = None"



text \<open>
  Parent consistency of a hierarchy: every entry with a parent finds the parent's entry,
  and that entry's count is the sum of the counts of the entries whose parent it is.
\<close>

definition childSum :: "(string \<times> GroupTreeEntry) list \<Rightarrow> string \<Rightarrow> nat" where
  "childSum hier pk = sum_list (map (\<lambda>(k, e). e_count e) (filter (\<lambda>(k, e). e_parent e = Some pk) hier))"

definition parentConsistent :: "(string \<times> GroupTreeEntry) list \<Rightarrow> bool" where
  "parentConsistent hier \<longleftrightarrow>
     list_all (\<lambda>(k, e).
        (case e_parent e of
           None \<Rightarrow> True
         | Some pk \<Rightarrow>
             (case map_of hier pk of
                None \<Rightarrow> False
              | Some pe \<Rightarrow> e_count pe = childSum hier pk))) hier"

text \<open>
  The implied tree: the children of a group under a dimension, and the leaves below a
  group for a list of dimensions, children before their younger siblings' children.
\<close>

fun mapE :: "('a \<Rightarrow> error + 'b) \<Rightarrow> 'a list \<Rightarrow> error + 'b list" where
  "mapE f [] = Inr []"
| "mapE f (x # xs) = bindE (f x) (\<lambda>y. bindE (mapE f xs) (\<lambda>ys. Inr (y # ys)))"

definition expansion ::
  "Sorting \<Rightarrow> GroupingType \<Rightarrow> Metadata \<Rightarrow> Collator \<Rightarrow> GroupingResult \<Rightarrow> error + GroupingResult list" where
  "expansion sorting grouping metadata collator grp =
     bindE (applyGrouping sorting (g_cards grp) grouping metadata collator)
       (\<lambda>expanded. Inr (map (childOf grp) expanded))"

primrec preorderLeaves ::
  "Sorting \<Rightarrow> Metadata \<Rightarrow> Collator \<Rightarrow> GroupingType list \<Rightarrow> GroupingResult \<Rightarrow> error + GroupingResult list" where
  "preorderLeaves sorting metadata collator [] = (\<lambda>grp. Inr [grp])"
| "preorderLeaves sorting metadata collator (grouping # rest) =
     (\<lambda>grp. bindE (expansion sorting grouping metadata collator grp) (\<lambda>children.
        bindE (mapE (preorderLeaves sorting metadata collator rest) children) (\<lambda>ls.
          Inr (concat ls))))"

text \<open>The number of separators in a key, which is the depth of its group below the top.\<close>

definition pipes :: "string \<Rightarrow> nat" where
  "pipes k = length (filter (\<lambda>c. c = CHR ''|'') k)"





text \<open>
  What the comparator of a dimension needs of a key: the cycle and pack comparators read
  the metadata under the key.
\<close>

definition comparable :: "Metadata \<Rightarrow> GroupingType \<Rightarrow> string \<Rightarrow> bool" where
  "comparable metadata grouping s =
     (if grouping = Gcycle then cycles metadata s \<noteq> None
      else if grouping = Gpack then
        (case packs metadata s of
           None \<Rightarrow> False
         | Some pack \<Rightarrow> cycles metadata (p_cycle_code pack) \<noteq> None)
      else True)"

section \<open>Example inputs\<close>

definition exampleCard :: Card where
  "exampleCard =
     \<lparr>code = ''01001'', type_code = ''asset'', permanent = False, real_slot = None,
      xp = None, faction_code = ''guardian'', faction2_code = None, encounter_code = None,
      cost = None, pack_code = ''abc'', subtype_code = None\<rparr>"

definition exampleSorting :: Sorting where
  "exampleSorting =
     \<lparr>sortTypesByOrder = (\<lambda>a b. 0), sortBySlots = (\<lambda>collator a b. collator a b),
      sortByFactionOrder = (\<lambda>a b. 0), sortByEncounterSet = (\<lambda>metadata collator a b. collator a b),
      sortNumerical = (\<lambda>a b. (case a of KNum x \<Rightarrow> x | KStr s \<Rightarrow> 0)
                              - (case b of KNum y \<Rightarrow> y | KStr s \<Rightarrow> 0))\<rparr>"

definition exampleCollator :: Collator where
  "exampleCollator a b = 0"

definition exampleMetadata :: Metadata where
  "exampleMetadata =
     \<lparr>packs = [''abc'' \<mapsto> \<lparr>p_code = ''abc'', p_cycle_code = ''abc'', p_position = 1, p_reprint = False\<rparr>,
               ''abcc'' \<mapsto> \<lparr>p_code = ''abcc'', p_cycle_code = ''abc'', p_position = 2, p_reprint = True\<rparr>],
      cycles = [''abc'' \<mapsto> \<lparr>c_code = ''abc'', c_position = 1\<rparr>],
      encounterSets = Map.empty\<rparr>"


definition byXp :: "Card \<Rightarrow> Card \<Rightarrow> int" where
  "byXp a b = (case xp a of None \<Rightarrow> 0 | Some x \<Rightarrow> x) - (case xp b of None \<Rightarrow> 0 | Some y \<Rightarrow> y)"

section \<open>Errors, folds and sorting\<close>


lemma bindE_eq_Inr: "bindE m f = Inr y \<longleftrightarrow> (\<exists>x. m = Inr x \<and> f x = Inr y)"
  by (cases m) auto

lemma bindE_Inr_id: "bindE m Inr = m"
  by (cases m) simp_all

lemma reduce_append:
  "reduce f acc (xs @ ys) = bindE (reduce f acc xs) (\<lambda>acc'. reduce f acc' ys)"
proof (induction xs arbitrary: acc)
  case Nil
  show ?case by simp
next
  case (Cons x xs)
  show ?case by (cases "f acc x") (simp_all add: Cons.IH)
qed

lemma grouped_step:
  assumes inv: "grouped keyOf cs acc"
    and key: "keyOf c = Inr k"
    and add: "addToBucket k c acc = Inr acc'"
  shows "grouped keyOf (cs @ [c]) acc'"
proof -
  let ?s = "keyString k"
  have name: "keyNameOf keyOf c = Some ?s"
    using key by (simp add: keyNameOf_def)
  from inv have dist: "distinct (map keyString (groupings acc))"
    and names: "Some ` keyString ` set (groupings acc) = keyNameOf keyOf ` set cs"
    and buckets: "\<And>s. data acc s =
        (if s \<in> keyString ` set (groupings acc)
         then Some (filter (\<lambda>c. keyNameOf keyOf c = Some s) cs) else None)"
    by (simp_all add: grouped_def)
  show ?thesis
  proof (cases "data acc ?s")
    case None
    then have fresh: "?s \<notin> keyString ` set (groupings acc)"
      using buckets [of ?s] by (simp split: if_splits)
    then have "Some ?s \<notin> keyNameOf keyOf ` set cs"
      using names by (metis imageE image_eqI option.inject)
    then have empty: "filter (\<lambda>c. keyNameOf keyOf c = Some ?s) cs = []"
      by (force simp: filter_empty_conv image_iff)
    from None add have acc': "acc' = acc\<lparr>data := (data acc)(?s \<mapsto> [c]),
                    groupings := groupings acc @ [k]\<rparr>"
      by (simp add: addToBucket_def getProp_def split: if_splits)
    have d: "distinct (map keyString (groupings acc'))"
      using dist fresh by (simp add: acc')
    have n: "Some ` keyString ` set (groupings acc') = keyNameOf keyOf ` set (cs @ [c])"
      using names name by (auto simp: acc')
    have b: "data acc' s =
        (if s \<in> keyString ` set (groupings acc')
         then Some (filter (\<lambda>c. keyNameOf keyOf c = Some s) (cs @ [c])) else None)" for s
      using buckets [of s] name empty by (auto simp: acc')
    from d n b show ?thesis
      unfolding grouped_def by blast
  next
    case (Some bucket)
    then have old: "?s \<in> keyString ` set (groupings acc)"
      and bucket: "bucket = filter (\<lambda>c. keyNameOf keyOf c = Some ?s) cs"
      using buckets [of ?s] by (simp_all split: if_splits)
    from Some add have acc': "acc' = acc\<lparr>data := (data acc)(?s \<mapsto> bucket @ [c])\<rparr>"
      by (simp add: addToBucket_def getProp_def)
    have d: "distinct (map keyString (groupings acc'))"
      using dist by (simp add: acc')
    have n: "Some ` keyString ` set (groupings acc') = keyNameOf keyOf ` set (cs @ [c])"
      using names name old by (auto simp: acc')
    have b: "data acc' s =
        (if s \<in> keyString ` set (groupings acc')
         then Some (filter (\<lambda>c. keyNameOf keyOf c = Some s) (cs @ [c])) else None)" for s
      using buckets [of s] name bucket old by (auto simp: acc')
    from d n b show ?thesis
      unfolding grouped_def by blast
  qed
qed

lemma addToBucket_gtype: "addToBucket k c acc = Inr acc' \<Longrightarrow> gtype acc' = gtype acc"
  by (auto simp: addToBucket_def split: property.splits)

lemma groupInto_snoc:
  "groupInto t keyOf (cs @ [c]) =
     bindE (groupInto t keyOf cs) (\<lambda>acc. bindE (keyOf c) (\<lambda>k. addToBucket k c acc))"
  by (simp add: groupInto_def reduce_append bindE_Inr_id)

lemma groupInto_grouped:
  "groupInto t keyOf cs = Inr acc \<Longrightarrow> grouped keyOf cs acc \<and> gtype acc = t"
proof (induction cs arbitrary: acc rule: rev_induct)
  case Nil
  then show ?case by (auto simp: groupInto_def grouped_def)
next
  case (snoc c cs)
  from snoc.prems obtain acc0 k where
    a0: "groupInto t keyOf cs = Inr acc0" and k: "keyOf c = Inr k"
    and add: "addToBucket k c acc0 = Inr acc"
    by (auto simp: groupInto_snoc bindE_eq_Inr)
  from snoc.IH [OF a0] have g0: "grouped keyOf cs acc0" and t0: "gtype acc0 = t"
    by simp_all
  from grouped_step [OF g0 k add] addToBucket_gtype [OF add] t0
  show ?case by simp
qed


lemma omitEmptyFrom_full:
  assumes "\<forall>k\<in>set (groupings acc). \<exists>b. data acc (keyString k) = Some b \<and> b \<noteq> []"
  shows "omitEmptyFrom i acc = Inr acc"
  using assms
proof (induction "length (groupings acc) - i" arbitrary: i rule: less_induct)
  case less
  show ?case
  proof (cases "i < length (groupings acc)")
    case True
    then have "groupings acc ! i \<in> set (groupings acc)" by simp
    with less.prems obtain b where
      b: "data acc (keyString (groupings acc ! i)) = Some b" "b \<noteq> []" by blast
    have "omitEmptyFrom (i + 1 + 1) acc = Inr acc"
      using True less.prems by (intro less.hyps) simp_all
    with True b show ?thesis
      by (subst omitEmptyFrom.simps) simp
  next
    case False
    then show ?thesis by (subst omitEmptyFrom.simps) simp
  qed
qed

lemma insertSorted_mset: "insertSorted cmp x ys = Inr zs \<Longrightarrow> mset zs = add_mset x (mset ys)"
proof (induction ys arbitrary: zs)
  case Nil
  then show ?case by auto
next
  case (Cons y ys)
  then show ?case
    by (auto simp: bindE_eq_Inr split: if_splits)
qed

lemma arraySort_mset: "arraySort cmp xs = Inr ys \<Longrightarrow> mset ys = mset xs"
proof (induction xs arbitrary: ys)
  case Nil
  then show ?case by simp
next
  case (Cons x xs)
  then show ?case
    by (auto simp: bindE_eq_Inr dest: insertSorted_mset)
qed

lemma toResults_eq:
  assumes "\<forall>k\<in>set ks. data acc (keyString k) \<noteq> None"
  shows "toResults acc ks =
     Inr (map (\<lambda>k. \<lparr>g_cards = the (data acc (keyString k)), g_key = keyString k,
                      g_type = groupingName (gtype acc)\<rparr>) ks)"
  using assms by (induction ks) auto


lemma grouped_bucket:
  "grouped keyOf cs acc \<Longrightarrow> k \<in> set (groupings acc) \<Longrightarrow>
     data acc (keyString k) = Some (filter (\<lambda>c. keyNameOf keyOf c = Some (keyString k)) cs)"
  by (simp add: grouped_def)

lemma grouped_bucket_nonempty:
  assumes "grouped keyOf cs acc" and "k \<in> set (groupings acc)"
  shows "filter (\<lambda>c. keyNameOf keyOf c = Some (keyString k)) cs \<noteq> []"
proof -
  from assms have "Some (keyString k) \<in> keyNameOf keyOf ` set cs"
    unfolding grouped_def by blast
  then show ?thesis
    by (force simp: filter_empty_conv image_iff)
qed

lemma finishGrouping_grouped:
  assumes inv: "grouped keyOf cs acc" and fin: "finishGrouping cmp acc = Inr gs"
  shows "\<exists>ks. mset ks = mset (groupings acc) \<and> gs = map (bucketResult keyOf cs (gtype acc)) ks"
proof -
  have full: "\<forall>k\<in>set (groupings acc). \<exists>b. data acc (keyString k) = Some b \<and> b \<noteq> []"
    using grouped_bucket [OF inv] grouped_bucket_nonempty [OF inv] by simp
  then have omit: "omitEmptyGroupings acc = Inr acc"
    by (simp add: omitEmptyGroupings_def omitEmptyFrom_full)
  with fin obtain ks where sorted: "arraySort cmp (groupings acc) = Inr ks"
    and res: "toGroupingResult (acc\<lparr>groupings := ks\<rparr>) = Inr gs"
    by (auto simp: finishGrouping_def bindE_eq_Inr)
  from arraySort_mset [OF sorted] have perm: "mset ks = mset (groupings acc)" .
  then have same: "set ks = set (groupings acc)"
    by (rule mset_eq_setD)
  then have "\<forall>k\<in>set ks. data (acc\<lparr>groupings := ks\<rparr>) (keyString k) \<noteq> None"
    using full by auto
  from toResults_eq [OF this] res
  have "gs = map (\<lambda>k. \<lparr>g_cards = the (data acc (keyString k)), g_key = keyString k,
                      g_type = groupingName (gtype acc)\<rparr>) ks"
    by (simp add: toGroupingResult_def)
  also have "\<dots> = map (bucketResult keyOf cs (gtype acc)) ks"
    using same grouped_bucket [OF inv] by (simp add: bucketResult_def)
  finally show ?thesis using perm by blast
qed

lemma sum_list_single_key:
  "distinct (map f ks) \<Longrightarrow> k \<in> set ks \<Longrightarrow>
     (\<Sum>k'\<leftarrow>ks. if f k' = f k then {#c#} else {#}) = {#c#}"
proof (induction ks)
  case Nil
  then show ?case by simp
next
  case (Cons a ks)
  show ?case
  proof (cases "f a = f k")
    case True
    with Cons.prems have "\<forall>k'\<in>set ks. f k' \<noteq> f k" by (auto simp: image_iff)
    then have "(\<Sum>k'\<leftarrow>ks. if f k' = f k then {#c#} else {#}) = {#}"
      by (induction ks) auto
    with True show ?thesis by simp
  next
    case False
    with Cons show ?thesis by auto
  qed
qed

lemma buckets_cover:
  assumes dist: "distinct (map f ks)"
    and all: "\<forall>c\<in>set cs. \<exists>k\<in>set ks. g c = Some (f k)"
  shows "mset (concat (map (\<lambda>k. filter (\<lambda>c. g c = Some (f k)) cs) ks)) = mset cs"
  using all
proof (induction cs)
  case Nil
  show ?case by (simp add: mset_concat) (induction ks, simp_all)
next
  case (Cons c cs)
  then obtain k where k: "k \<in> set ks" "g c = Some (f k)" by auto
  have split: "(\<Sum>k'\<leftarrow>ks. mset (filter (\<lambda>c. g c = Some (f k')) (c # cs))) =
        (\<Sum>k'\<leftarrow>ks. if f k' = f k then {#c#} else {#}) +
        (\<Sum>k'\<leftarrow>ks. mset (filter (\<lambda>c. g c = Some (f k')) cs))"
    using k(2) by (induction ks) auto
  from Cons have "mset (concat (map (\<lambda>k. filter (\<lambda>c. g c = Some (f k)) cs) ks)) = mset cs"
    by simp
  then show ?case
    using split sum_list_single_key [OF dist k(1)]
    by (simp add: mset_concat comp_def)
qed

lemma finishGrouping_cover:
  assumes inv: "grouped keyOf cs acc" and fin: "finishGrouping cmp acc = Inr gs"
  shows "mset (concat (map g_cards gs)) = mset cs"
proof -
  from finishGrouping_grouped [OF inv fin] obtain ks where
    perm: "mset ks = mset (groupings acc)"
    and gs: "gs = map (bucketResult keyOf cs (gtype acc)) ks" by blast
  from perm have "mset (map keyString ks) = mset (map keyString (groupings acc))"
    by simp
  with inv have dist: "distinct (map keyString ks)"
    by (metis grouped_def mset_eq_imp_distinct_iff)
  have "set ks = set (groupings acc)" using perm by (rule mset_eq_setD)
  with inv have all: "\<forall>c\<in>set cs. \<exists>k\<in>set ks. keyNameOf keyOf c = Some (keyString k)"
    unfolding grouped_def by (metis (no_types, lifting) image_iff)
  have "map g_cards gs = map (\<lambda>k. filter (\<lambda>c. keyNameOf keyOf c = Some (keyString k)) cs) ks"
    by (simp add: gs bucketResult_def)
  with buckets_cover [OF dist all] show ?thesis by simp
qed

lemma groupInto_finish_cover:
  "bindE (groupInto t keyOf cs) (finishGrouping cmp) = Inr gs \<Longrightarrow>
     mset (concat (map g_cards gs)) = mset cs"
  by (auto simp: bindE_eq_Inr dest!: groupInto_grouped intro: finishGrouping_cover)

section \<open>The two dimensions with fixed buckets\<close>

lemma LEVEL_0_neq_UPGRADE: "LEVEL_0 \<noteq> UPGRADE"
  by (simp add: LEVEL_0_def UPGRADE_def)

lemma level0VsUpgradeStep_buckets:
  "level0VsUpgradeStep (level0Buckets a b t) c =
     Inr (if truthyNum (xp c) then level0Buckets a (b @ [c]) t else level0Buckets (a @ [c]) b t)"
proof -
  have "[LEVEL_0 \<mapsto> a, UPGRADE \<mapsto> b](LEVEL_0 \<mapsto> a @ [c]) = [LEVEL_0 \<mapsto> a @ [c], UPGRADE \<mapsto> b]"
    using LEVEL_0_neq_UPGRADE by (auto simp: fun_eq_iff)
  then show ?thesis
    using LEVEL_0_neq_UPGRADE
    by (simp add: level0VsUpgradeStep_def pushTo_def level0Buckets_def)
qed

lemma level0_reduce:
  "reduce level0VsUpgradeStep (level0Buckets a b t) cards =
   Inr (level0Buckets (a @ filter (\<lambda>c. \<not> truthyNum (xp c)) cards)
          (b @ filter (\<lambda>c. truthyNum (xp c)) cards) t)"
proof (induction cards arbitrary: a b)
  case Nil
  show ?case by simp
next
  case (Cons c cards)
  show ?case
    by (simp add: level0VsUpgradeStep_buckets Cons.IH)
qed

lemma omitEmpty_level0Buckets:
  "omitEmptyGroupings (level0Buckets a b t) =
   Inr (if a = [] then \<lparr>data = [UPGRADE \<mapsto> b], groupings = [KStr UPGRADE], gtype = t\<rparr>
        else level0Buckets a b t)"
proof -
  have del: "[LEVEL_0 \<mapsto> a, UPGRADE \<mapsto> b](LEVEL_0 := None) = [UPGRADE \<mapsto> b]"
    using LEVEL_0_neq_UPGRADE by (auto simp: fun_eq_iff)
  show ?thesis
  proof (cases "a = []")
    case True
    then show ?thesis
      using LEVEL_0_neq_UPGRADE del
      by (simp add: omitEmptyGroupings_def level0Buckets_def omitEmptyFrom.simps)
  next
    case False
    then show ?thesis
      using LEVEL_0_neq_UPGRADE
      by (simp add: omitEmptyGroupings_def level0Buckets_def omitEmptyFrom.simps)
  qed
qed

lemma groupByLevel0VsUpgrade_eq:
  "groupByLevel0VsUpgrade cards =
   Inr ((if filter (\<lambda>c. \<not> truthyNum (xp c)) cards = [] then []
         else [\<lparr>g_cards = filter (\<lambda>c. \<not> truthyNum (xp c)) cards, g_key = LEVEL_0,
                 g_type = ''base_upgrades''\<rparr>])
        @ [\<lparr>g_cards = filter (\<lambda>c. truthyNum (xp c)) cards, g_key = UPGRADE,
             g_type = ''base_upgrades''\<rparr>])"
proof -
  have "reduce level0VsUpgradeStep (level0Buckets [] [] Gbase_upgrades) cards =
      Inr (level0Buckets (filter (\<lambda>c. \<not> truthyNum (xp c)) cards)
          (filter (\<lambda>c. truthyNum (xp c)) cards) Gbase_upgrades)"
    using level0_reduce [of "[]" "[]"] by simp
  then show ?thesis
    using LEVEL_0_neq_UPGRADE
    by (simp add: groupByLevel0VsUpgrade_def level0Buckets_def [symmetric]
        omitEmpty_level0Buckets toGroupingResult_def)
      (simp add: level0Buckets_def)
qed

lemma truthyNum_iff: "truthyNum v \<longleftrightarrow> (\<exists>n. v = Some n \<and> n \<noteq> 0)"
  by (cases v) auto

lemma not_truthyNum_iff: "\<not> truthyNum v \<longleftrightarrow> v = None \<or> v = Some 0"
  by (cases v) auto

text \<open>
  C10. Under \<open>base_upgrades\<close> the \<open>level0\<close> group holds exactly the cards whose
  experience is absent, null or 0, and the \<open>upgrade\<close> group exactly the cards whose
  experience is a number other than 0; a card with experience 0 is treated as a card
  with no experience value.
\<close>

theorem base_upgrades_buckets:
  "groupByLevel0VsUpgrade cards =
     Inr ((if filter (\<lambda>c. xp c = None \<or> xp c = Some 0) cards = [] then []
           else [\<lparr>g_cards = filter (\<lambda>c. xp c = None \<or> xp c = Some 0) cards,
                   g_key = ''level0'', g_type = ''base_upgrades''\<rparr>])
          @ [\<lparr>g_cards = filter (\<lambda>c. \<exists>n. xp c = Some n \<and> n \<noteq> 0) cards,
               g_key = ''upgrade'', g_type = ''base_upgrades''\<rparr>])
   \<and> level0VsUpgradeStep acc (c\<lparr>xp := Some 0\<rparr>) = pushTo ''level0'' (c\<lparr>xp := Some 0\<rparr>) acc
   \<and> level0VsUpgradeStep acc (c\<lparr>xp := None\<rparr>) = pushTo ''level0'' (c\<lparr>xp := None\<rparr>) acc"
proof -
  have falsy: "(\<lambda>c. \<not> truthyNum (xp c)) = (\<lambda>c. xp c = None \<or> xp c = Some 0)"
    by (simp add: fun_eq_iff not_truthyNum_iff)
  have truthy: "(\<lambda>c. truthyNum (xp c)) = (\<lambda>c. \<exists>n. xp c = Some n \<and> n \<noteq> 0)"
    by (simp add: fun_eq_iff truthyNum_iff)
  have "level0VsUpgradeStep acc (c\<lparr>xp := v\<rparr>) = pushTo ''level0'' (c\<lparr>xp := v\<rparr>) acc"
    if "v = None \<or> v = Some 0" for v
    using that by (auto simp: level0VsUpgradeStep_def LEVEL_0_def)
  then show ?thesis
    using groupByLevel0VsUpgrade_eq [of cards]
    unfolding falsy truthy LEVEL_0_def UPGRADE_def by simp
qed

theorem base_upgrades_buckets_witness:
  "groupByLevel0VsUpgrade
     [exampleCard\<lparr>xp := Some 3\<rparr>, exampleCard\<lparr>xp := Some 0\<rparr>, exampleCard] =
   Inr [\<lparr>g_cards = [exampleCard\<lparr>xp := Some 0\<rparr>, exampleCard],
         g_key = ''level0'', g_type = ''base_upgrades''\<rparr>,
        \<lparr>g_cards = [exampleCard\<lparr>xp := Some 3\<rparr>],
         g_key = ''upgrade'', g_type = ''base_upgrades''\<rparr>]"
  using base_upgrades_buckets
    [of "[exampleCard\<lparr>xp := Some 3\<rparr>, exampleCard\<lparr>xp := Some 0\<rparr>, exampleCard]"]
  by (simp add: exampleCard_def)

text \<open>
  C2. \<open>omitEmptyGroupings\<close> skips the key after every key it looks at, so the second
  of the fixed keys is never examined: one card without experience gives a \<open>level0\<close>
  group and an \<open>upgrade\<close> group with no card, and one card without subtype gives a
  \<open>none\<close> group and a \<open>weakness\<close> group with no card.
\<close>

theorem fixed_buckets_empty_group:
  "applyGrouping exampleSorting [exampleCard\<lparr>xp := Some 0\<rparr>] Gbase_upgrades
     exampleMetadata exampleCollator =
   Inr [\<lparr>g_cards = [exampleCard\<lparr>xp := Some 0\<rparr>], g_key = ''level0'',
         g_type = ''base_upgrades''\<rparr>,
        \<lparr>g_cards = [], g_key = ''upgrade'', g_type = ''base_upgrades''\<rparr>]
   \<and> applyGrouping exampleSorting [exampleCard] Gsubtype exampleMetadata exampleCollator =
       Inr [\<lparr>g_cards = [exampleCard], g_key = ''none'', g_type = ''subtype''\<rparr>,
            \<lparr>g_cards = [], g_key = ''weakness'', g_type = ''subtype''\<rparr>]"
  by code_simp

section \<open>The subtype dimension\<close>

lemma subtype_keys_distinct:
  "NONE \<noteq> ''weakness''" "NONE \<noteq> ''basicweakness''" "''weakness'' \<noteq> NONE"
  "''basicweakness'' \<noteq> NONE"
  "NONE \<notin> set objectPrototypeKeys" "''weakness'' \<notin> set objectPrototypeKeys"
  "''basicweakness'' \<notin> set objectPrototypeKeys"
  by (simp_all add: NONE_def objectPrototypeKeys_def)

lemma subtypeStep_buckets:
  "subtypeStep (subtypeBuckets a b d t) c =
     (if subtypeOf c = NONE then Inr (subtypeBuckets (a @ [c]) b d t)
      else if subtypeOf c = ''weakness'' then Inr (subtypeBuckets a (b @ [c]) d t)
      else if subtypeOf c = ''basicweakness'' then Inr (subtypeBuckets a b (d @ [c]) t)
      else if subtypeOf c \<in> set objectPrototypeKeys then Inl TypeError
      else Inr (subtypeBuckets a b d t))"
proof -
  have 1: "[NONE \<mapsto> a, ''weakness'' \<mapsto> b, ''basicweakness'' \<mapsto> d](NONE \<mapsto> a @ [c]) =
      [NONE \<mapsto> a @ [c], ''weakness'' \<mapsto> b, ''basicweakness'' \<mapsto> d]"
    using subtype_keys_distinct by (auto simp: fun_eq_iff)
  have 2: "[NONE \<mapsto> a, ''weakness'' \<mapsto> b, ''basicweakness'' \<mapsto> d](''weakness'' \<mapsto> b @ [c]) =
      [NONE \<mapsto> a, ''weakness'' \<mapsto> b @ [c], ''basicweakness'' \<mapsto> d]"
    by (auto simp: fun_eq_iff)
  show ?thesis
    using subtype_keys_distinct 1 2
    by (simp add: subtypeStep_def subtypeBuckets_def getProp_def)
qed

lemma subtype_reduce:
  "reduce subtypeStep (subtypeBuckets a b d t) cards =
     (if \<exists>c\<in>set cards. subtypeOf c \<in> set objectPrototypeKeys then Inl TypeError
      else Inr (subtypeBuckets (a @ filter (\<lambda>c. subtypeOf c = NONE) cards)
                  (b @ filter (\<lambda>c. subtypeOf c = ''weakness'') cards)
                  (d @ filter (\<lambda>c. subtypeOf c = ''basicweakness'') cards) t))"
proof (induction cards arbitrary: a b d)
  case Nil
  show ?case by simp
next
  case (Cons c cards)
  show ?case
    using subtype_keys_distinct
    by (simp add: subtypeStep_buckets Cons.IH)
qed

lemma subtype_finish:
  "bindE (omitEmptyGroupings (subtypeBuckets a b d t)) toGroupingResult =
     Inr ((if a = [] then [] else [\<lparr>g_cards = a, g_key = NONE, g_type = groupingName t\<rparr>])
          @ [\<lparr>g_cards = b, g_key = ''weakness'', g_type = groupingName t\<rparr>]
          @ (if d = [] then []
             else [\<lparr>g_cards = d, g_key = ''basicweakness'', g_type = groupingName t\<rparr>]))"
proof (cases "a = []")
  case True
  show ?thesis
  proof (cases "d = []")
    case True
    with \<open>a = []\<close> show ?thesis
      using subtype_keys_distinct
      by (simp add: omitEmptyGroupings_def subtypeBuckets_def omitEmptyFrom.simps
          toGroupingResult_def)
  next
    case False
    with \<open>a = []\<close> show ?thesis
      using subtype_keys_distinct
      by (simp add: omitEmptyGroupings_def subtypeBuckets_def omitEmptyFrom.simps
          toGroupingResult_def)
  qed
next
  case False
  show ?thesis
  proof (cases "d = []")
    case True
    with \<open>a \<noteq> []\<close> show ?thesis
      using subtype_keys_distinct
      by (simp add: omitEmptyGroupings_def subtypeBuckets_def omitEmptyFrom.simps
          toGroupingResult_def)
  next
    case False
    with \<open>a \<noteq> []\<close> show ?thesis
      using subtype_keys_distinct
      by (simp add: omitEmptyGroupings_def subtypeBuckets_def omitEmptyFrom.simps
          toGroupingResult_def)
  qed
qed

lemma groupBySubtypeCode_eq:
  "groupBySubtypeCode cards =
     (if \<exists>c\<in>set cards. subtypeOf c \<in> set objectPrototypeKeys then Inl TypeError
      else Inr ((if filter (\<lambda>c. subtypeOf c = NONE) cards = [] then []
                 else [\<lparr>g_cards = filter (\<lambda>c. subtypeOf c = NONE) cards, g_key = NONE,
                         g_type = ''subtype''\<rparr>])
           @ [\<lparr>g_cards = filter (\<lambda>c. subtypeOf c = ''weakness'') cards, g_key = ''weakness'',
                g_type = ''subtype''\<rparr>]
           @ (if filter (\<lambda>c. subtypeOf c = ''basicweakness'') cards = [] then []
              else [\<lparr>g_cards = filter (\<lambda>c. subtypeOf c = ''basicweakness'') cards,
                      g_key = ''basicweakness'', g_type = ''subtype''\<rparr>])))"
proof -
  have "groupBySubtypeCode cards =
      bindE (reduce subtypeStep (subtypeBuckets [] [] [] Gsubtype) cards)
        (\<lambda>results. bindE (omitEmptyGroupings results) toGroupingResult)"
    by (simp add: groupBySubtypeCode_def subtypeBuckets_def)
  then show ?thesis
    by (simp add: subtype_reduce subtype_finish)
qed

text \<open>
  C6. Subtype partitioning returns groups for the keys \<open>none\<close>, \<open>weakness\<close> and
  \<open>basicweakness\<close> only, in that order; each group holds the cards of its subtype, so a
  card of any other subtype is in no group. For cards with the subtype codes null,
  \<open>weakness\<close> and \<open>ultra-rare\<close> the result is the two groups \<open>none\<close> and
  \<open>weakness\<close>.
\<close>

theorem subtype_partition:
  "(\<forall>gs. groupBySubtypeCode cards = Inr gs \<longrightarrow>
      subseq (map g_key gs) [''none'', ''weakness'', ''basicweakness''] \<and>
      (\<forall>g\<in>set gs. g_cards g = filter (\<lambda>c. subtypeOf c = g_key g) cards) \<and>
      (\<forall>c\<in>set cards. subtypeOf c \<notin> {''none'', ''weakness'', ''basicweakness''} \<longrightarrow>
         (\<forall>g\<in>set gs. c \<notin> set (g_cards g))))
   \<and> (mset (map subtype_code cards) = {#None, Some ''weakness'', Some ''ultra-rare''#} \<longrightarrow>
        groupBySubtypeCode cards =
          Inr [\<lparr>g_cards = filter (\<lambda>c. subtype_code c = None) cards, g_key = ''none'',
                g_type = ''subtype''\<rparr>,
               \<lparr>g_cards = filter (\<lambda>c. subtype_code c = Some ''weakness'') cards,
                g_key = ''weakness'', g_type = ''subtype''\<rparr>])"
proof (intro conjI allI impI)
  fix gs
  assume res: "groupBySubtypeCode cards = Inr gs"
  then have gs: "gs =
      (if filter (\<lambda>c. subtypeOf c = NONE) cards = [] then []
       else [\<lparr>g_cards = filter (\<lambda>c. subtypeOf c = NONE) cards, g_key = NONE,
               g_type = ''subtype''\<rparr>])
      @ [\<lparr>g_cards = filter (\<lambda>c. subtypeOf c = ''weakness'') cards, g_key = ''weakness'',
           g_type = ''subtype''\<rparr>]
      @ (if filter (\<lambda>c. subtypeOf c = ''basicweakness'') cards = [] then []
         else [\<lparr>g_cards = filter (\<lambda>c. subtypeOf c = ''basicweakness'') cards,
                 g_key = ''basicweakness'', g_type = ''subtype''\<rparr>])"
    by (simp add: groupBySubtypeCode_eq split: if_splits)
  show "subseq (map g_key gs) [''none'', ''weakness'', ''basicweakness'']"
    by (simp add: gs NONE_def)
  show content: "\<forall>g\<in>set gs. g_cards g = filter (\<lambda>c. subtypeOf c = g_key g) cards"
    by (simp add: gs)
  have keys: "\<forall>g\<in>set gs. g_key g \<in> {''none'', ''weakness'', ''basicweakness''}"
    by (simp add: gs NONE_def)
  show "\<forall>c\<in>set cards. subtypeOf c \<notin> {''none'', ''weakness'', ''basicweakness''} \<longrightarrow>
         (\<forall>g\<in>set gs. c \<notin> set (g_cards g))"
    using content keys by auto
next
  assume codes: "mset (map subtype_code cards) = {#None, Some ''weakness'', Some ''ultra-rare''#}"
  then have "set (map subtype_code cards) = {None, Some ''weakness'', Some ''ultra-rare''}"
    by (metis set_mset_add_mset_insert set_mset_empty set_mset_mset)
  then have range: "subtype_code ` set cards = {None, Some ''weakness'', Some ''ultra-rare''}"
    by simp
  then have each: "subtype_code c = None \<or> subtype_code c = Some ''weakness''
      \<or> subtype_code c = Some ''ultra-rare''" if "c \<in> set cards" for c
    using that by blast
  have sub: "(subtypeOf c = NONE \<longleftrightarrow> subtype_code c = None)
      \<and> (subtypeOf c = ''weakness'' \<longleftrightarrow> subtype_code c = Some ''weakness'')
      \<and> subtypeOf c \<noteq> ''basicweakness'' \<and> subtypeOf c \<notin> set objectPrototypeKeys"
    if "c \<in> set cards" for c
    using each [OF that] by (auto simp: subtypeOf_def NONE_def objectPrototypeKeys_def)
  have none: "filter (\<lambda>c. subtypeOf c = NONE) cards = filter (\<lambda>c. subtype_code c = None) cards"
    by (rule filter_cong) (simp_all add: sub)
  have weak: "filter (\<lambda>c. subtypeOf c = ''weakness'') cards =
      filter (\<lambda>c. subtype_code c = Some ''weakness'') cards"
    by (rule filter_cong) (simp_all add: sub)
  have basic: "filter (\<lambda>c. subtypeOf c = ''basicweakness'') cards = []"
    by (simp add: filter_empty_conv sub)
  have proto: "\<not> (\<exists>c\<in>set cards. subtypeOf c \<in> set objectPrototypeKeys)"
    using sub by blast
  have "None \<in> subtype_code ` set cards" using range by simp
  then have "\<exists>c\<in>set cards. subtype_code c = None"
    by (metis imageE)
  then have nonempty: "filter (\<lambda>c. subtype_code c = None) cards \<noteq> []"
    by (simp add: filter_empty_conv)
  have "groupBySubtypeCode cards =
      Inr ((if filter (\<lambda>c. subtypeOf c = NONE) cards = [] then []
            else [\<lparr>g_cards = filter (\<lambda>c. subtypeOf c = NONE) cards, g_key = NONE,
                    g_type = ''subtype''\<rparr>])
           @ [\<lparr>g_cards = filter (\<lambda>c. subtypeOf c = ''weakness'') cards, g_key = ''weakness'',
                g_type = ''subtype''\<rparr>]
           @ (if filter (\<lambda>c. subtypeOf c = ''basicweakness'') cards = [] then []
              else [\<lparr>g_cards = filter (\<lambda>c. subtypeOf c = ''basicweakness'') cards,
                      g_key = ''basicweakness'', g_type = ''subtype''\<rparr>]))"
    using proto by (subst groupBySubtypeCode_eq) (simp only: if_False)
  then show "groupBySubtypeCode cards =
          Inr [\<lparr>g_cards = filter (\<lambda>c. subtype_code c = None) cards, g_key = ''none'',
                g_type = ''subtype''\<rparr>,
               \<lparr>g_cards = filter (\<lambda>c. subtype_code c = Some ''weakness'') cards,
                g_key = ''weakness'', g_type = ''subtype''\<rparr>]"
    unfolding none weak basic using nonempty by (simp add: NONE_def)
qed

theorem subtype_partition_witness:
  "groupBySubtypeCode
     [exampleCard\<lparr>subtype_code := Some ''ultra-rare''\<rparr>, exampleCard,
      exampleCard\<lparr>subtype_code := Some ''weakness''\<rparr>] =
     Inr [\<lparr>g_cards = [exampleCard], g_key = ''none'', g_type = ''subtype''\<rparr>,
          \<lparr>g_cards = [exampleCard\<lparr>subtype_code := Some ''weakness''\<rparr>],
           g_key = ''weakness'', g_type = ''subtype''\<rparr>]
   \<and> subseq [''none'', ''weakness''] [''none'', ''weakness'', ''basicweakness'']
   \<and> subtypeOf (exampleCard\<lparr>subtype_code := Some ''ultra-rare''\<rparr>)
        \<notin> {''none'', ''weakness'', ''basicweakness''}"
proof -
  let ?cards = "[exampleCard\<lparr>subtype_code := Some ''ultra-rare''\<rparr>, exampleCard,
      exampleCard\<lparr>subtype_code := Some ''weakness''\<rparr>]"
  note claim = subtype_partition [of ?cards]
  have codes: "mset (map subtype_code ?cards) = {#None, Some ''weakness'', Some ''ultra-rare''#}"
    by (simp add: exampleCard_def)
  with claim have res: "groupBySubtypeCode ?cards =
     Inr [\<lparr>g_cards = [exampleCard], g_key = ''none'', g_type = ''subtype''\<rparr>,
          \<lparr>g_cards = [exampleCard\<lparr>subtype_code := Some ''weakness''\<rparr>],
           g_key = ''weakness'', g_type = ''subtype''\<rparr>]"
    by (simp add: exampleCard_def)
  with claim have "subseq [''none'', ''weakness''] [''none'', ''weakness'', ''basicweakness'']"
    by simp
  moreover have "subtypeOf (exampleCard\<lparr>subtype_code := Some ''ultra-rare''\<rparr>)
        \<notin> {''none'', ''weakness'', ''basicweakness''}"
    by (simp add: subtypeOf_def)
  ultimately show ?thesis using res by simp
qed

section \<open>Partitions with buckets created on demand\<close>

lemma dynamic_partition:
  assumes "bindE (groupInto t keyOf cs) (finishGrouping cmp) = Inr gs"
  shows "\<forall>g\<in>set gs. g_cards g = filter (\<lambda>c. keyNameOf keyOf c = Some (g_key g)) cs
            \<and> g_cards g \<noteq> [] \<and> g_type g = groupingName t"
    and "distinct (map g_key gs)"
    and "Some ` g_key ` set gs = keyNameOf keyOf ` set cs"
proof -
  from assms obtain acc where acc: "groupInto t keyOf cs = Inr acc"
    and fin: "finishGrouping cmp acc = Inr gs"
    by (auto simp: bindE_eq_Inr)
  from groupInto_grouped [OF acc] have inv: "grouped keyOf cs acc" and t: "gtype acc = t"
    by simp_all
  from finishGrouping_grouped [OF inv fin] obtain ks where
    perm: "mset ks = mset (groupings acc)"
    and gs: "gs = map (bucketResult keyOf cs t) ks"
    using t by auto
  have same: "set ks = set (groupings acc)" using perm by (rule mset_eq_setD)
  show "\<forall>g\<in>set gs. g_cards g = filter (\<lambda>c. keyNameOf keyOf c = Some (g_key g)) cs
            \<and> g_cards g \<noteq> [] \<and> g_type g = groupingName t"
    using grouped_bucket_nonempty [OF inv] same by (auto simp: gs bucketResult_def)
  have keys: "map g_key gs = map keyString ks"
    by (simp add: gs bucketResult_def)
  from perm have "mset (map keyString ks) = mset (map keyString (groupings acc))"
    by simp
  moreover from inv have "distinct (map keyString (groupings acc))"
    by (simp add: grouped_def)
  ultimately show "distinct (map g_key gs)"
    unfolding keys by (metis mset_eq_imp_distinct_iff)
  have "g_key ` set gs = keyString ` set ks"
    using keys by (metis list.set_map)
  with inv same show "Some ` g_key ` set gs = keyNameOf keyOf ` set cs"
    by (simp add: grouped_def)
qed

lemma applyGrouping_dynamic:
  assumes "keyOfDimension metadata grouping = Some keyOf"
  shows "\<exists>cmp. applyGrouping sorting cards grouping metadata collator =
           bindE (groupInto grouping keyOf cards) (finishGrouping cmp)"
  using assms
  by (cases grouping)
    (auto simp: groupByTypeCode_def groupBySlots_def groupByLevel_def groupByFaction_def
      groupByEncounterSet_def groupByCost_def groupByCycle_def groupByPack_def)

lemma sortPure_mset: "mset (sortPure cmp xs) = mset xs"
proof (induction xs)
  case Nil
  show ?case by simp
next
  case (Cons x xs)
  have "mset (insertPure cmp x ys) = add_mset x (mset ys)" for ys
    by (induction ys) simp_all
  with Cons show ?case by simp
qed


lemma applyGrouping_cover:
  assumes "applyGrouping sorting cards grouping metadata collator = Inr gs"
    and "grouping \<noteq> Gsubtype"
  shows "mset (concat (map g_cards gs)) = mset cards"
proof (cases "keyOfDimension metadata grouping")
  case (Some keyOf)
  from applyGrouping_dynamic [OF Some] assms(1) obtain cmp where
    "bindE (groupInto grouping keyOf cards) (finishGrouping cmp) = Inr gs"
    by metis
  then show ?thesis by (rule groupInto_finish_cover)
next
  case None
  with assms(2) consider "grouping = Gnone" | "grouping = Gbase_upgrades"
    by (cases grouping) simp_all
  then show ?thesis
  proof cases
    case 1
    with assms(1) show ?thesis by auto
  next
    case 2
    with assms(1) have gs: "gs =
      (if filter (\<lambda>c. \<not> truthyNum (xp c)) cards = [] then []
       else [\<lparr>g_cards = filter (\<lambda>c. \<not> truthyNum (xp c)) cards, g_key = LEVEL_0,
               g_type = ''base_upgrades''\<rparr>])
      @ [\<lparr>g_cards = filter (\<lambda>c. truthyNum (xp c)) cards, g_key = UPGRADE,
           g_type = ''base_upgrades''\<rparr>]"
      by (simp add: groupByLevel0VsUpgrade_eq)
    have "concat (map g_cards gs) =
        filter (\<lambda>c. \<not> truthyNum (xp c)) cards @ filter (\<lambda>c. truthyNum (xp c)) cards"
      by (cases "filter (\<lambda>c. \<not> truthyNum (xp c)) cards = []") (simp_all add: gs)
    moreover have "mset (filter (\<lambda>c. \<not> truthyNum (xp c)) cards
        @ filter (\<lambda>c. truthyNum (xp c)) cards) = mset cards"
      by (induction cards) simp_all
    ultimately show ?thesis by (simp only:)
  qed
qed

text \<open>
  C1. For every dimension other than \<open>subtype\<close>, the groups that \<open>applyGrouping\<close>
  returns hold the input cards, each as often as the input does; with pairwise different
  input cards no card is in two groups or twice in one.
\<close>

theorem partition_covers:
  assumes "applyGrouping sorting cards grouping metadata collator = Inr gs"
    and "grouping \<noteq> Gsubtype"
  shows "mset (concat (map g_cards gs)) = mset cards
    \<and> (distinct cards \<longrightarrow> distinct (concat (map g_cards gs)))"
proof -
  from applyGrouping_cover [OF assms]
  have "mset (concat (map g_cards gs)) = mset cards" .
  then show ?thesis
    by (metis mset_eq_imp_distinct_iff)
qed

theorem partition_covers_witness:
  "applyGrouping exampleSorting
     [exampleCard, exampleCard\<lparr>code := ''01002'', type_code := ''event''\<rparr>,
      exampleCard\<lparr>code := ''01003''\<rparr>] Gtype exampleMetadata exampleCollator =
   Inr [\<lparr>g_cards = [exampleCard, exampleCard\<lparr>code := ''01003''\<rparr>], g_key = ''asset'',
         g_type = ''type''\<rparr>,
        \<lparr>g_cards = [exampleCard\<lparr>code := ''01002'', type_code := ''event''\<rparr>],
         g_key = ''event'', g_type = ''type''\<rparr>]
   \<and> Gtype \<noteq> Gsubtype
   \<and> mset [exampleCard, exampleCard\<lparr>code := ''01003''\<rparr>,
            exampleCard\<lparr>code := ''01002'', type_code := ''event''\<rparr>] =
       mset [exampleCard, exampleCard\<lparr>code := ''01002'', type_code := ''event''\<rparr>,
             exampleCard\<lparr>code := ''01003''\<rparr>]"
proof -
  let ?cards = "[exampleCard, exampleCard\<lparr>code := ''01002'', type_code := ''event''\<rparr>,
      exampleCard\<lparr>code := ''01003''\<rparr>]"
  let ?gs = "[\<lparr>g_cards = [exampleCard, exampleCard\<lparr>code := ''01003''\<rparr>], g_key = ''asset'',
         g_type = ''type''\<rparr>,
        \<lparr>g_cards = [exampleCard\<lparr>code := ''01002'', type_code := ''event''\<rparr>],
         g_key = ''event'', g_type = ''type''\<rparr>]"
  have run: "applyGrouping exampleSorting ?cards Gtype exampleMetadata exampleCollator = Inr ?gs"
    by code_simp
  have dim: "Gtype \<noteq> Gsubtype" by simp
  from partition_covers [OF run dim] have "mset (concat (map g_cards ?gs)) = mset ?cards"
    by blast
  with run dim show ?thesis by simp
qed

section \<open>The builder with one dimension\<close>

text \<open>
  C9. With an empty dimension list \<open>getGroupedCards\<close> does what it does for
  \<open>["none"]\<close>: it returns one leaf with key \<open>all\<close> and type \<open>none\<close> that holds all
  the input cards, ordered by the caller's comparison.
\<close>

theorem empty_dimensions_as_none:
  "getGroupedCards sorting [] cards sortFunction metadata collator =
     getGroupedCards sorting [Gnone] cards sortFunction metadata collator
   \<and> getGroupedCards sorting [] cards sortFunction metadata collator =
       Inr \<lparr>leaves = [\<lparr>g_cards = sortPure sortFunction cards, g_key = ''all'',
                       g_type = ''none''\<rparr>],
            hierarchy = [(''all'', \<lparr>e_key = ''all'', e_type = ''none'',
                                  e_count = length cards, e_parent = None\<rparr>)]\<rparr>
   \<and> mset (sortPure sortFunction cards) = mset cards"
  by (simp add: getGroupedCards_def sortCards_def register_def entryOf_def sortPure_mset)

section \<open>Labels\<close>




section \<open>Reprint resolution\<close>

lemma groupByPack_members:
  assumes "groupByPack cards metadata = Inr gs" and "c \<in> set cards"
  shows "\<exists>k. packKey metadata c = Inr k \<and> (\<exists>g\<in>set gs. g_key g = keyString k)
           \<and> (\<forall>g\<in>set gs. c \<in> set (g_cards g) \<longleftrightarrow> g_key g = keyString k)"
proof -
  from assms(1) have run:
    "bindE (groupInto Gpack (packKey metadata) cards) (finishGrouping (packOrder metadata)) = Inr gs"
    by (simp add: groupByPack_def)
  note part = dynamic_partition [OF run]
  from part(3) assms(2) have "keyNameOf (packKey metadata) c \<in> Some ` g_key ` set gs"
    by blast
  then obtain g0 where g0: "g0 \<in> set gs" "keyNameOf (packKey metadata) c = Some (g_key g0)"
    by blast
  then obtain k where k: "packKey metadata c = Inr k" "keyString k = g_key g0"
    by (auto simp: keyNameOf_def split: sum.splits)
  have "c \<in> set (g_cards g) \<longleftrightarrow> g_key g = keyString k" if "g \<in> set gs" for g
  proof -
    from part(1) that have "g_cards g = filter (\<lambda>c. keyNameOf (packKey metadata) c = Some (g_key g)) cards"
      by blast
    then show ?thesis using assms(2) g0(2) k(2) by auto
  qed
  with k g0 show ?thesis by metis
qed

text \<open>
  C5. For a card whose pack is in the metadata, the pack dimension looks up the code made
  of the pack's cycle code and \<open>c\<close> when the card has an encounter code (one that is
  not the empty string), \<open>p\<close> otherwise. The card is grouped under the pack found there
  when there is one and it is marked as a reprint, and under its own pack otherwise: it
  is in the group keyed by that pack's code and in no other. Where the packs are stored
  under their own codes, this key is the looked-up code or the card's pack code.
\<close>

theorem pack_reprint_resolution:
  assumes "packs metadata (pack_code c) = Some pack"
  shows "reprintPackCode pack c =
           p_cycle_code pack @ (if encounter_code c \<notin> {None, Some []} then ''c'' else ''p'')
    \<and> resolvePack metadata c =
         Inr (case packs metadata (reprintPackCode pack c) of
                None \<Rightarrow> pack
              | Some reprintPack \<Rightarrow> if p_reprint reprintPack then reprintPack else pack)
    \<and> (\<forall>gs target. groupByPack cards metadata = Inr gs \<and> c \<in> set cards
          \<and> resolvePack metadata c = Inr target \<longrightarrow>
          (\<exists>g\<in>set gs. g_key g = p_code target)
          \<and> (\<forall>g\<in>set gs. c \<in> set (g_cards g) \<longleftrightarrow> g_key g = p_code target))
    \<and> ((\<forall>k p. packs metadata k = Some p \<longrightarrow> p_code p = k) \<longrightarrow>
          packKey metadata c =
            Inr (KStr (if \<exists>reprintPack. packs metadata (reprintPackCode pack c) = Some reprintPack
                           \<and> p_reprint reprintPack
                       then reprintPackCode pack c else pack_code c)))"
proof (intro conjI allI impI)
  show "reprintPackCode pack c =
           p_cycle_code pack @ (if encounter_code c \<notin> {None, Some []} then ''c'' else ''p'')"
    by (cases "encounter_code c") (simp_all add: reprintPackCode_def)
  show res: "resolvePack metadata c =
         Inr (case packs metadata (reprintPackCode pack c) of
                None \<Rightarrow> pack
              | Some reprintPack \<Rightarrow> if p_reprint reprintPack then reprintPack else pack)"
    using assms by (simp add: resolvePack_def split: option.splits)
  {
    fix gs target
    assume a: "groupByPack cards metadata = Inr gs \<and> c \<in> set cards
          \<and> resolvePack metadata c = Inr target"
    then have key: "packKey metadata c = Inr (KStr (p_code target))"
      by (simp add: packKey_def)
    from a groupByPack_members [of cards metadata gs c] key
    show "\<exists>g\<in>set gs. g_key g = p_code target" by auto
    from a groupByPack_members [of cards metadata gs c] key
    show "\<forall>g\<in>set gs. c \<in> set (g_cards g) \<longleftrightarrow> g_key g = p_code target" by auto
  }
  assume keyed: "\<forall>k p. packs metadata k = Some p \<longrightarrow> p_code p = k"
  show "packKey metadata c =
            Inr (KStr (if \<exists>reprintPack. packs metadata (reprintPackCode pack c) = Some reprintPack
                           \<and> p_reprint reprintPack
                       then reprintPackCode pack c else pack_code c))"
  proof (cases "packs metadata (reprintPackCode pack c)")
    case None
    with res keyed assms show ?thesis by (simp add: packKey_def)
  next
    case (Some reprintPack)
    with res keyed assms show ?thesis by (simp add: packKey_def)
  qed
qed

theorem pack_reprint_resolution_witness:
  "packs exampleMetadata (pack_code (exampleCard\<lparr>encounter_code := Some ''agents''\<rparr>)) =
     Some \<lparr>p_code = ''abc'', p_cycle_code = ''abc'', p_position = 1, p_reprint = False\<rparr>
   \<and> resolvePack exampleMetadata (exampleCard\<lparr>encounter_code := Some ''agents''\<rparr>) =
       Inr \<lparr>p_code = ''abcc'', p_cycle_code = ''abc'', p_position = 2, p_reprint = True\<rparr>
   \<and> groupByPack [exampleCard\<lparr>encounter_code := Some ''agents''\<rparr>] exampleMetadata =
       Inr [\<lparr>g_cards = [exampleCard\<lparr>encounter_code := Some ''agents''\<rparr>], g_key = ''abcc'',
             g_type = ''pack''\<rparr>]
   \<and> exampleCard\<lparr>encounter_code := Some ''agents''\<rparr>
       \<in> set (g_cards \<lparr>g_cards = [exampleCard\<lparr>encounter_code := Some ''agents''\<rparr>],
                        g_key = ''abcc'', g_type = ''pack''\<rparr>)
   \<and> packKey exampleMetadata (exampleCard\<lparr>encounter_code := Some ''agents''\<rparr>) =
       Inr (KStr ''abcc'')"
proof -
  let ?c = "exampleCard\<lparr>encounter_code := Some ''agents''\<rparr>"
  let ?abc = "\<lparr>p_code = ''abc'', p_cycle_code = ''abc'', p_position = 1, p_reprint = False\<rparr>"
  let ?abcc = "\<lparr>p_code = ''abcc'', p_cycle_code = ''abc'', p_position = 2, p_reprint = True\<rparr>"
  let ?g = "\<lparr>g_cards = [?c], g_key = ''abcc'', g_type = ''pack''\<rparr>"
  have own: "packs exampleMetadata (pack_code ?c) = Some ?abc"
    by (simp add: exampleMetadata_def exampleCard_def)
  note claim = pack_reprint_resolution [OF own, of "[?c]"]
  note claim1 = claim [THEN conjunct1]
  note claim2 = claim [THEN conjunct2, THEN conjunct1]
  note claim3 = claim [THEN conjunct2, THEN conjunct2, THEN conjunct1, rule_format]
  note claim4 = claim [THEN conjunct2, THEN conjunct2, THEN conjunct2, rule_format]
  have code: "reprintPackCode ?abc ?c = ''abcc''"
    using claim1 by (simp add: exampleCard_def)
  have reprint: "packs exampleMetadata ''abcc'' = Some ?abcc"
    by (simp add: exampleMetadata_def)
  from claim2 have target: "resolvePack exampleMetadata ?c = Inr ?abcc"
    unfolding code reprint by simp
  have run: "groupByPack [?c] exampleMetadata = Inr [?g]"
    by code_simp
  have "?c \<in> set [?c]" by simp
  with run target have "groupByPack [?c] exampleMetadata = Inr [?g] \<and> ?c \<in> set [?c]
      \<and> resolvePack exampleMetadata ?c = Inr ?abcc"
    by (intro conjI)
  from claim3 [OF this]
  have "\<forall>g\<in>set [?g]. ?c \<in> set (g_cards g) \<longleftrightarrow> g_key g = p_code ?abcc"
    by (rule conjunct2)
  then have member: "?c \<in> set (g_cards ?g)" by simp
  have keyed: "p_code p = k" if "packs exampleMetadata k = Some p" for k p
    using that by (auto simp: exampleMetadata_def split: if_splits)
  from claim4 [OF keyed] have "packKey exampleMetadata ?c =
      Inr (KStr (if \<exists>reprintPack. packs exampleMetadata (reprintPackCode ?abc ?c) = Some reprintPack
                           \<and> p_reprint reprintPack
                 then reprintPackCode ?abc ?c else pack_code ?c))"
    by simp
  then have key: "packKey exampleMetadata ?c = Inr (KStr ''abcc'')"
    unfolding code reprint by simp
  from own target run member key show ?thesis by (intro conjI)
qed

section \<open>The input array under the dimension \<open>none\<close>\<close>

lemma getGroupedCardsAt_none:
  assumes "arrays st cards = Some cs" and "dims = [] \<or> dims = [Gnone]"
  shows "getGroupedCardsAt sorting dims st cards sortFunction metadata collator =
     Inr ([\<lparr>r_cards = cards, r_key = ''all'', r_type = ''none''\<rparr>],
          st\<lparr>arrays := (arrays st)(cards \<mapsto> sortPure sortFunction cs)\<rparr>)"
  using assms by (auto simp: getGroupedCardsAt_def applyGroupingAt_def)

text \<open>
  C4. With no dimension (or \<open>["none"]\<close>) the only leaf holds the caller's array itself,
  and the final loop sorts that array in place: an input array \<open>[xp 3, no xp]\<close> at
  address 0 is \<open>[no xp, xp 3]\<close> after the call.
\<close>

theorem none_sorts_input_array:
  "getGroupedCardsAt exampleSorting []
     \<lparr>arrays = [0 \<mapsto> [exampleCard\<lparr>xp := Some 3\<rparr>, exampleCard]], nextRef = 1\<rparr>
     0 byXp exampleMetadata exampleCollator =
   Inr ([\<lparr>r_cards = 0, r_key = ''all'', r_type = ''none''\<rparr>],
        \<lparr>arrays = [0 \<mapsto> [exampleCard, exampleCard\<lparr>xp := Some 3\<rparr>]], nextRef = 1\<rparr>)
   \<and> [exampleCard, exampleCard\<lparr>xp := Some 3\<rparr>] \<noteq> [exampleCard\<lparr>xp := Some 3\<rparr>, exampleCard]"
proof -
  have "sortPure byXp [exampleCard\<lparr>xp := Some 3\<rparr>, exampleCard] =
      [exampleCard, exampleCard\<lparr>xp := Some 3\<rparr>]"
    by (simp add: byXp_def exampleCard_def)
  moreover have "exampleCard \<noteq> exampleCard\<lparr>xp := Some 3\<rparr>"
    by (simp add: exampleCard_def)
  ultimately show ?thesis
    by (simp add: getGroupedCardsAt_none [where cs = "[exampleCard\<lparr>xp := Some 3\<rparr>, exampleCard]"])
qed

section \<open>Expansion passes\<close>

lemma concat_map_concat: "concat (map concat xss) = concat (concat xss)"
  by (induction xss) simp_all

lemma mapE_append:
  "mapE f (xs @ ys) = Inr zs \<longleftrightarrow>
     (\<exists>as bs. mapE f xs = Inr as \<and> mapE f ys = Inr bs \<and> zs = as @ bs)"
proof (induction xs arbitrary: zs)
  case Nil
  show ?case by simp
next
  case (Cons x xs)
  show ?case
    by (cases "f x") (auto simp: bindE_eq_Inr Cons.IH)
qed

lemma mapE_concat:
  "mapE f (concat xss) = Inr ys \<Longrightarrow> \<exists>yss. mapE (mapE f) xss = Inr yss \<and> ys = concat yss"
proof (induction xss arbitrary: ys)
  case Nil
  then show ?case by simp
next
  case (Cons xs xss)
  from Cons.prems obtain as bs where
    as: "mapE f xs = Inr as" and bs: "mapE f (concat xss) = Inr bs" and ys: "ys = as @ bs"
    by (auto simp: mapE_append)
  from Cons.IH [OF bs] obtain yss where "mapE (mapE f) xss = Inr yss" "bs = concat yss"
    by blast
  with as ys show ?case by simp
qed

lemma mapE_singletons: "mapE (\<lambda>x. Inr [x]) xs = Inr (map (\<lambda>x. [x]) xs)"
  by (induction xs) simp_all

lemma expansion_Inr:
  "expansion sorting grouping metadata collator grp = Inr children \<longleftrightarrow>
     (\<exists>expanded. applyGrouping sorting (g_cards grp) grouping metadata collator = Inr expanded
        \<and> children = map (childOf grp) expanded)"
  by (auto simp: expansion_def bindE_eq_Inr)

lemma expandFrom_eq:
  "expandFrom sorting grouping metadata collator j groups hier = Inr (groups', hier') \<Longrightarrow>
     \<exists>ess. mapE (expansion sorting grouping metadata collator) (drop j groups) = Inr ess
       \<and> groups' = take j groups @ concat ess
       \<and> hier' = foldl (\<lambda>h (g, es). registerGroup g es h) hier (zip (drop j groups) ess)"
proof (induction sorting grouping metadata collator j groups hier rule: expandFrom.induct)
  case (1 sorting grouping metadata collator j groups hier)
  show ?case
  proof (cases "j < length groups")
    case False
    with "1.prems" show ?thesis
      by (simp add: expandFrom.simps)
  next
    case True
    let ?g = "groups ! j"
    from True "1.prems" obtain expanded where
      ex: "applyGrouping sorting (g_cards ?g) grouping metadata collator = Inr expanded"
      by (subst (asm) expandFrom.simps) (auto split: sum.splits)
    let ?children = "map (childOf ?g) expanded"
    let ?groups1 = "take j groups @ ?children @ drop (Suc j) groups"
    let ?hier1 = "registerGroup ?g ?children hier"
    from True ex "1.prems" have rec:
      "expandFrom sorting grouping metadata collator (j + length expanded) ?groups1 ?hier1 =
         Inr (groups', hier')"
      by (subst (asm) expandFrom.simps) simp
    from "1.IH" [OF True ex rec] obtain ess1 where
      m1: "mapE (expansion sorting grouping metadata collator) (drop (j + length expanded) ?groups1)
             = Inr ess1"
      and g1: "groups' = take (j + length expanded) ?groups1 @ concat ess1"
      and h1: "hier' = foldl (\<lambda>h (g, es). registerGroup g es h) ?hier1
                 (zip (drop (j + length expanded) ?groups1) ess1)"
      by blast
    have dr: "drop (j + length expanded) ?groups1 = drop (Suc j) groups"
      using True by simp
    have tk: "take (j + length expanded) ?groups1 = take j groups @ ?children"
      using True by simp
    have split: "drop j groups = ?g # drop (Suc j) groups"
      using True by (simp add: Cons_nth_drop_Suc)
    have exp: "expansion sorting grouping metadata collator ?g = Inr ?children"
      using ex by (simp add: expansion_Inr)
    from m1 have m1': "mapE (expansion sorting grouping metadata collator) (drop (Suc j) groups)
        = Inr ess1"
      unfolding dr .
    have "mapE (expansion sorting grouping metadata collator) (drop j groups) = Inr (?children # ess1)"
      unfolding split by (simp add: m1' exp)
    moreover have "groups' = take j groups @ concat (?children # ess1)"
      using g1 unfolding tk by simp
    moreover have "hier' = foldl (\<lambda>h (g, es). registerGroup g es h) hier
        (zip (drop j groups) (?children # ess1))"
      using h1 unfolding dr split by simp
    ultimately show ?thesis by blast
  qed
qed

lemma preorder_step:
  "mapE g xs = Inr ess \<Longrightarrow> mapE (mapE f) ess = Inr yss \<Longrightarrow>
     mapE (\<lambda>x. bindE (g x) (\<lambda>children. bindE (mapE f children) (\<lambda>ls. Inr (concat ls)))) xs
       = Inr (map concat yss)"
proof (induction xs arbitrary: ess yss)
  case Nil
  then show ?case by auto
next
  case (Cons x xs)
  from Cons.prems(1) obtain es ess' where
    es: "g x = Inr es" and ess': "mapE g xs = Inr ess'" and ess: "ess = es # ess'"
    by (auto simp: bindE_eq_Inr)
  from Cons.prems(2) obtain ys yss' where
    ys: "mapE f es = Inr ys" and yss': "mapE (mapE f) ess' = Inr yss'" and yss: "yss = ys # yss'"
    by (auto simp: ess bindE_eq_Inr)
  from Cons.IH [OF ess' yss'] es ys show ?case
    by (simp add: yss)
qed

lemma expandAll_preorder:
  "expandAll sorting rest metadata collator groups hier = Inr (groups', hier') \<Longrightarrow>
     \<exists>ls. mapE (preorderLeaves sorting metadata collator rest) groups = Inr ls
        \<and> groups' = concat ls"
proof (induction rest arbitrary: groups hier)
  case Nil
  then show ?case by (simp add: mapE_singletons)
next
  case (Cons grouping rest)
  from Cons.prems obtain groups1 hier1 where
    pass: "expandFrom sorting grouping metadata collator 0 groups hier = Inr (groups1, hier1)"
    and rest: "expandAll sorting rest metadata collator groups1 hier1 = Inr (groups', hier')"
    by (auto simp: bindE_eq_Inr)
  from expandFrom_eq [OF pass] obtain ess where
    ess: "mapE (expansion sorting grouping metadata collator) groups = Inr ess"
    and groups1: "groups1 = concat ess"
    by auto
  from Cons.IH [OF rest] obtain ls1 where
    ls1: "mapE (preorderLeaves sorting metadata collator rest) (concat ess) = Inr ls1"
    and groups': "groups' = concat ls1"
    unfolding groups1 by blast
  from mapE_concat [OF ls1] obtain yss where
    yss: "mapE (mapE (preorderLeaves sorting metadata collator rest)) ess = Inr yss"
    and flat: "ls1 = concat yss"
    by blast
  from preorder_step [OF ess yss]
  have "mapE (preorderLeaves sorting metadata collator (grouping # rest)) groups =
      Inr (map concat yss)"
    by simp
  moreover have "groups' = concat (map concat yss)"
    by (simp add: groups' flat concat_map_concat)
  ultimately show ?case by blast
qed

text \<open>
  C8. A pass that has reached index \<open>j\<close> leaves the groups before \<open>j\<close> where they are
  and puts, for each group from \<open>j\<close> on and in their order, the children of the group
  in its place; a group without children disappears. The leaves that
  \<open>getGroupedCards\<close> returns are therefore the leaves of the implied tree in pre-order,
  each with its cards sorted.
\<close>

theorem expansion_keeps_order:
  "(expandFrom sorting grouping metadata collator j groups hier = Inr (groups', hier') \<longrightarrow>
      (\<exists>ess. mapE (expansion sorting grouping metadata collator) (drop j groups) = Inr ess
         \<and> groups' = take j groups @ concat ess))
   \<and> (getGroupedCards sorting dims cards sortFunction metadata collator = Inr result \<longrightarrow>
        (\<exists>tops ls.
           applyGrouping sorting cards (hd (if dims \<noteq> [] then dims else [Gnone]))
             metadata collator = Inr tops
           \<and> mapE (preorderLeaves sorting metadata collator
                     (tl (if dims \<noteq> [] then dims else [Gnone]))) tops = Inr ls
           \<and> leaves result = map (sortCards sortFunction) (concat ls)))"
proof (intro conjI impI)
  assume "expandFrom sorting grouping metadata collator j groups hier = Inr (groups', hier')"
  from expandFrom_eq [OF this]
  show "\<exists>ess. mapE (expansion sorting grouping metadata collator) (drop j groups) = Inr ess
         \<and> groups' = take j groups @ concat ess"
    by blast
next
  let ?dims = "if dims \<noteq> [] then dims else [Gnone]"
  assume run: "getGroupedCards sorting dims cards sortFunction metadata collator = Inr result"
  then obtain tops groups hier where
    tops: "applyGrouping sorting cards (hd ?dims) metadata collator = Inr tops"
    and body: "(if length ?dims > 1
               then expandAll sorting (tl ?dims) metadata collator tops []
               else Inr (tops, foldl (\<lambda>h g. register g None h) [] tops)) = Inr (groups, hier)"
    and result: "result = \<lparr>leaves = map (sortCards sortFunction) groups, hierarchy = hier\<rparr>"
    unfolding getGroupedCards_def Let_def by (auto simp: bindE_eq_Inr)
  have "\<exists>ls. mapE (preorderLeaves sorting metadata collator (tl ?dims)) tops = Inr ls
      \<and> groups = concat ls"
  proof (cases "length ?dims > 1")
    case True
    with body have "expandAll sorting (tl ?dims) metadata collator tops [] = Inr (groups, hier)"
      by simp
    then show ?thesis by (rule expandAll_preorder)
  next
    case False
    then have "tl ?dims = []"
      by (cases ?dims) (auto split: if_splits)
    moreover from False body have "groups = tops" by simp
    ultimately show ?thesis
      by (simp add: mapE_singletons)
  qed
  with tops result
  show "\<exists>tops ls.
           applyGrouping sorting cards (hd ?dims) metadata collator = Inr tops
           \<and> mapE (preorderLeaves sorting metadata collator (tl ?dims)) tops = Inr ls
           \<and> leaves result = map (sortCards sortFunction) (concat ls)"
    by auto
qed

theorem expansion_keeps_order_witness:
  "expandFrom exampleSorting Gtype exampleMetadata exampleCollator 0
     [\<lparr>g_cards = [exampleCard, exampleCard\<lparr>type_code := ''event''\<rparr>], g_key = ''level0'',
       g_type = ''base_upgrades''\<rparr>,
      \<lparr>g_cards = [], g_key = ''upgrade'', g_type = ''base_upgrades''\<rparr>] [] =
   Inr ([\<lparr>g_cards = [exampleCard], g_key = ''level0|asset'', g_type = ''base_upgrades|type''\<rparr>,
         \<lparr>g_cards = [exampleCard\<lparr>type_code := ''event''\<rparr>], g_key = ''level0|event'',
          g_type = ''base_upgrades|type''\<rparr>],
        [(''level0'', \<lparr>e_key = ''level0'', e_type = ''base_upgrades'', e_count = 2,
                        e_parent = None\<rparr>),
         (''level0|asset'', \<lparr>e_key = ''level0|asset'', e_type = ''base_upgrades|type'',
                              e_count = 1, e_parent = Some ''level0''\<rparr>),
         (''level0|event'', \<lparr>e_key = ''level0|event'', e_type = ''base_upgrades|type'',
                              e_count = 1, e_parent = Some ''level0''\<rparr>),
         (''upgrade'', \<lparr>e_key = ''upgrade'', e_type = ''base_upgrades'', e_count = 0,
                         e_parent = None\<rparr>)])
   \<and> (\<exists>ess. mapE (expansion exampleSorting Gtype exampleMetadata exampleCollator)
          (drop 0 [\<lparr>g_cards = [exampleCard, exampleCard\<lparr>type_code := ''event''\<rparr>],
                    g_key = ''level0'', g_type = ''base_upgrades''\<rparr>,
                   \<lparr>g_cards = [], g_key = ''upgrade'', g_type = ''base_upgrades''\<rparr>]) = Inr ess
        \<and> [\<lparr>g_cards = [exampleCard], g_key = ''level0|asset'', g_type = ''base_upgrades|type''\<rparr>,
            \<lparr>g_cards = [exampleCard\<lparr>type_code := ''event''\<rparr>], g_key = ''level0|event'',
             g_type = ''base_upgrades|type''\<rparr>] =
           take 0 [\<lparr>g_cards = [exampleCard, exampleCard\<lparr>type_code := ''event''\<rparr>],
                    g_key = ''level0'', g_type = ''base_upgrades''\<rparr>,
                   \<lparr>g_cards = [], g_key = ''upgrade'', g_type = ''base_upgrades''\<rparr>] @ concat ess)
   \<and> getGroupedCards exampleSorting [Gbase_upgrades, Gtype]
        [exampleCard, exampleCard\<lparr>type_code := ''event''\<rparr>] byXp exampleMetadata exampleCollator =
       Inr \<lparr>leaves =
              [\<lparr>g_cards = [exampleCard], g_key = ''level0|asset'',
                g_type = ''base_upgrades|type''\<rparr>,
               \<lparr>g_cards = [exampleCard\<lparr>type_code := ''event''\<rparr>], g_key = ''level0|event'',
                g_type = ''base_upgrades|type''\<rparr>],
            hierarchy =
              [(''level0'', \<lparr>e_key = ''level0'', e_type = ''base_upgrades'', e_count = 2,
                              e_parent = None\<rparr>),
               (''level0|asset'', \<lparr>e_key = ''level0|asset'', e_type = ''base_upgrades|type'',
                                    e_count = 1, e_parent = Some ''level0''\<rparr>),
               (''level0|event'', \<lparr>e_key = ''level0|event'', e_type = ''base_upgrades|type'',
                                    e_count = 1, e_parent = Some ''level0''\<rparr>),
               (''upgrade'', \<lparr>e_key = ''upgrade'', e_type = ''base_upgrades'', e_count = 0,
                               e_parent = None\<rparr>)]\<rparr>
   \<and> (\<exists>tops ls.
         applyGrouping exampleSorting [exampleCard, exampleCard\<lparr>type_code := ''event''\<rparr>]
           (hd (if [Gbase_upgrades, Gtype] \<noteq> [] then [Gbase_upgrades, Gtype] else [Gnone]))
           exampleMetadata exampleCollator = Inr tops
         \<and> mapE (preorderLeaves exampleSorting exampleMetadata exampleCollator
                   (tl (if [Gbase_upgrades, Gtype] \<noteq> [] then [Gbase_upgrades, Gtype] else [Gnone])))
               tops = Inr ls
         \<and> [\<lparr>g_cards = [exampleCard], g_key = ''level0|asset'',
               g_type = ''base_upgrades|type''\<rparr>,
              \<lparr>g_cards = [exampleCard\<lparr>type_code := ''event''\<rparr>], g_key = ''level0|event'',
               g_type = ''base_upgrades|type''\<rparr>] = map (sortCards byXp) (concat ls))"
  (is "?pass = Inr (?groups', ?hier') \<and> ?order \<and> ?run = Inr ?result \<and> ?preorder")
proof -
  have pass: "?pass = Inr (?groups', ?hier')"
    by code_simp
  have run: "?run = Inr ?result"
    by code_simp
  note claim = expansion_keeps_order [of exampleSorting _ exampleMetadata exampleCollator]
  from claim [THEN conjunct1, rule_format, OF pass] have order: ?order .
  from claim [THEN conjunct2, rule_format, OF run] have preorder: ?preorder
    by simp
  from pass order run preorder show ?thesis by (intro conjI)
qed

section \<open>Keys and their parents\<close>

lemma splitOn_nonempty: "splitOn sep s \<noteq> []"
  by (induction s) (auto split: list.splits)

lemma splitOn_no_sep: "sep \<notin> set s \<Longrightarrow> splitOn sep s = [s]"
  by (induction s) auto

lemma splitOn_last_segment:
  "sep \<notin> set s \<Longrightarrow> splitOn sep (p @ sep # s) = splitOn sep p @ [s]"
proof (induction p)
  case Nil
  then show ?case by (simp add: splitOn_no_sep)
next
  case (Cons c p)
  then show ?case
    using splitOn_nonempty [of sep p] by (cases "splitOn sep p") auto
qed

lemma joinWith_splitOn: "joinWith [sep] (splitOn sep s) = s"
proof (induction s)
  case Nil
  show ?case by simp
next
  case (Cons c s)
  obtain x xs where split: "splitOn sep s = x # xs"
    using splitOn_nonempty [of sep s] by (cases "splitOn sep s") auto
  show ?case
  proof (cases "c = sep")
    case True
    with Cons split show ?thesis by simp
  next
    case False
    have "joinWith [sep] ((c # x) # xs) = c # joinWith [sep] (x # xs)"
      by (cases xs) simp_all
    with False Cons split show ?thesis by simp
  qed
qed

lemma parentKey_child: "CHR ''|'' \<notin> set s \<Longrightarrow> parentKey (k @ ''|'' @ s) = Some k"
  by (simp add: parentKey_def splitOn_last_segment joinWith_splitOn)


lemma parentKey_pipes: "parentKey k = Some p \<Longrightarrow> pipes k = Suc (pipes p)"
proof -
  assume parent: "parentKey k = Some p"
  then have "CHR ''|'' \<in> set k"
    by (simp add: parentKey_def split: if_splits)
  from split_list_last [OF this]
  obtain q s where k: "k = q @ CHR ''|'' # s" and s: "CHR ''|'' \<notin> set s"
    by blast
  from parentKey_child [OF s, of q] parent have "p = q"
    by (simp add: k)
  moreover from s have "filter (\<lambda>c. c = CHR ''|'') s = []"
    by (auto simp: filter_empty_conv)
  ultimately show ?thesis
    by (simp add: k pipes_def)
qed


lemma pipes_child: "CHR ''|'' \<notin> set s \<Longrightarrow> pipes (k @ ''|'' @ s) = Suc (pipes k)"
proof -
  assume "CHR ''|'' \<notin> set s"
  then have "filter (\<lambda>c. c = CHR ''|'') s = []"
    by (auto simp: filter_empty_conv)
  then show ?thesis by (simp add: pipes_def)
qed




section \<open>The hierarchy as a list of entries\<close>






section \<open>What every partition gives the builder\<close>




section \<open>The hierarchy during a pass\<close>





lemma children_keys:
  assumes dist: "distinct (map g_key es)"
    and free: "\<forall>e\<in>set es. CHR ''|'' \<notin> set (g_key e)"
  shows "distinct (map g_key (map (childOf g) es))"
    and "\<forall>c\<in>set (map (childOf g) es). parentKey (g_key c) = Some (g_key g)
           \<and> pipes (g_key c) = Suc (pipes (g_key g))"
    and "map (\<lambda>c. length (g_cards c)) (map (childOf g) es) = map (\<lambda>e. length (g_cards e)) es"
proof -
  have keys: "map g_key (map (childOf g) es) = map (\<lambda>e. g_key g @ ''|'' @ g_key e) es"
    by (simp add: childOf_def)
  from dist have "distinct (map (\<lambda>e. g_key g @ ''|'' @ g_key e) es)"
    by (auto simp: distinct_map inj_on_def)
  then show "distinct (map g_key (map (childOf g) es))"
    by (simp only: keys)
  have "parentKey (g_key g @ ''|'' @ g_key e) = Some (g_key g)
      \<and> pipes (g_key g @ ''|'' @ g_key e) = Suc (pipes (g_key g))" if "e \<in> set es" for e
    using free that parentKey_child [of "g_key e" "g_key g"] pipes_child [of "g_key e" "g_key g"]
    by blast
  then show "\<forall>c\<in>set (map (childOf g) es). parentKey (g_key c) = Some (g_key g)
           \<and> pipes (g_key c) = Suc (pipes (g_key g))"
    by (simp add: childOf_def)
  show "map (\<lambda>c. length (g_cards c)) (map (childOf g) es) = map (\<lambda>e. length (g_cards e)) es"
    by (simp add: childOf_def)
qed





lemma pipes_append: "pipes (a @ b) = pipes a + pipes b"
  by (simp add: pipes_def)




















section \<open>Parent consistency of the hierarchy\<close>




text \<open>
  A type code with a separator in it: the entry \<open>a|b\<close> of the top-level group names
  the parent \<open>a\<close>, which is no key of the hierarchy.
\<close>

lemma hierarchy_separator_example:
  "getGroupedCards exampleSorting [Gtype, Gcost] [exampleCard\<lparr>type_code := ''a|b''\<rparr>] byXp
     exampleMetadata exampleCollator =
   Inr \<lparr>leaves =
          [\<lparr>g_cards = [exampleCard\<lparr>type_code := ''a|b''\<rparr>], g_key = ''a|b|none'',
            g_type = ''type|cost''\<rparr>],
        hierarchy =
          [(''a|b'', \<lparr>e_key = ''a|b'', e_type = ''type'', e_count = 1, e_parent = Some ''a''\<rparr>),
           (''a|b|none'', \<lparr>e_key = ''a|b|none'', e_type = ''type|cost'', e_count = 1,
                            e_parent = Some ''a|b''\<rparr>)]\<rparr>
   \<and> \<not> parentConsistent
        [(''a|b'', \<lparr>e_key = ''a|b'', e_type = ''type'', e_count = 1, e_parent = Some ''a''\<rparr>),
         (''a|b|none'', \<lparr>e_key = ''a|b|none'', e_type = ''type|cost'', e_count = 1,
                          e_parent = Some ''a|b''\<rparr>)]"
  (is "?run = Inr ?result \<and> \<not> parentConsistent ?hier")
proof -
  have "?run = Inr ?result"
    by code_simp
  moreover have "\<not> parentConsistent ?hier"
    by (simp add: parentConsistent_def childSum_def)
  ultimately show ?thesis by (intro conjI)
qed

section \<open>When a partition is returned\<close>

lemma addToBucket_returns:
  "keyString k \<notin> set objectPrototypeKeys \<Longrightarrow> \<exists>acc'. addToBucket k c acc = Inr acc'"
  by (cases "data acc (keyString k)") (simp_all add: addToBucket_def getProp_def)

lemma groupInto_returns:
  assumes "\<forall>c\<in>set cs. \<exists>k. keyOf c = Inr k \<and> keyString k \<notin> set objectPrototypeKeys"
  shows "\<exists>acc. groupInto t keyOf cs = Inr acc"
  using assms
proof (induction cs rule: rev_induct)
  case Nil
  show ?case by (simp add: groupInto_def)
next
  case (snoc c cs)
  then obtain acc where acc: "groupInto t keyOf cs = Inr acc" by auto
  from snoc.prems obtain k where k: "keyOf c = Inr k" "keyString k \<notin> set objectPrototypeKeys"
    by auto
  from addToBucket_returns [OF k(2), of c acc] acc k(1) show ?case
    by (simp add: groupInto_snoc)
qed

lemma insertSorted_returns:
  "\<forall>y\<in>set ys. \<exists>r. cmp x y = Inr r \<Longrightarrow> \<exists>zs. insertSorted cmp x ys = Inr zs"
proof (induction ys)
  case Nil
  show ?case by simp
next
  case (Cons y ys)
  then obtain r zs where "cmp x y = Inr r" "insertSorted cmp x ys = Inr zs"
    by auto
  then show ?case by simp
qed

lemma arraySort_returns:
  "\<forall>a\<in>set xs. \<forall>b\<in>set xs. \<exists>r. cmp a b = Inr r \<Longrightarrow> \<exists>ys. arraySort cmp xs = Inr ys"
proof (induction xs)
  case Nil
  show ?case by simp
next
  case (Cons x xs)
  then obtain ys where ys: "arraySort cmp xs = Inr ys" by auto
  from arraySort_mset [OF ys] have "set ys = set xs" by (rule mset_eq_setD)
  with Cons.prems have "\<forall>y\<in>set ys. \<exists>r. cmp x y = Inr r" by simp
  with insertSorted_returns [of ys cmp x] ys show ?case by simp
qed

lemma finishGrouping_returns:
  assumes inv: "grouped keyOf cs acc"
    and cmp: "\<forall>a\<in>set (groupings acc). \<forall>b\<in>set (groupings acc). \<exists>r. cmp a b = Inr r"
  shows "\<exists>gs. finishGrouping cmp acc = Inr gs"
proof -
  have full: "\<forall>k\<in>set (groupings acc). \<exists>b. data acc (keyString k) = Some b \<and> b \<noteq> []"
    using grouped_bucket [OF inv] grouped_bucket_nonempty [OF inv] by simp
  then have omit: "omitEmptyGroupings acc = Inr acc"
    by (simp add: omitEmptyGroupings_def omitEmptyFrom_full)
  from arraySort_returns [OF cmp] obtain ks where ks: "arraySort cmp (groupings acc) = Inr ks"
    by blast
  from arraySort_mset [OF ks] have "set ks = set (groupings acc)" by (rule mset_eq_setD)
  with full have "\<forall>k\<in>set ks. data (acc\<lparr>groupings := ks\<rparr>) (keyString k) \<noteq> None"
    by auto
  from toResults_eq [OF this] omit ks show ?thesis
    by (simp add: finishGrouping_def toGroupingResult_def)
qed

lemma comparable_cycleOrder:
  assumes "comparable metadata Gcycle (keyString a)" "comparable metadata Gcycle (keyString b)"
  shows "\<exists>r. cycleOrder metadata a b = Inr r"
  using assms by (auto simp: comparable_def cycleOrder_def cyclePosition_def)

lemma comparable_packOrder:
  assumes "comparable metadata Gpack (keyString a)" "comparable metadata Gpack (keyString b)"
  shows "\<exists>r. packOrder metadata a b = Inr r"
  using assms
  by (auto simp: comparable_def packOrder_def packCycle_def split: option.splits)

text \<open>
  A dimension with buckets on demand returns a partition when every card has a key, no
  key is the name of a property of \<open>Object.prototype\<close>, and the metadata has what the
  comparator of the dimension reads under each key. The dimensions \<open>none\<close> and
  \<open>base_upgrades\<close> always return one.
\<close>

lemma applyGrouping_returns:
  assumes dim: "keyOfDimension metadata grouping = Some keyOf"
    and keys: "\<forall>c\<in>set cards. \<exists>k. keyOf c = Inr k \<and> keyString k \<notin> set objectPrototypeKeys
                 \<and> comparable metadata grouping (keyString k)"
  shows "\<exists>gs. applyGrouping sorting cards grouping metadata collator = Inr gs"
proof -
  from keys have "\<forall>c\<in>set cards. \<exists>k. keyOf c = Inr k \<and> keyString k \<notin> set objectPrototypeKeys"
    by blast
  from groupInto_returns [OF this] obtain acc where
    acc: "groupInto grouping keyOf cards = Inr acc" by blast
  from groupInto_grouped [OF acc] have inv: "grouped keyOf cards acc" by simp
  have cmpb: "comparable metadata grouping (keyString k)" if "k \<in> set (groupings acc)" for k
  proof -
    from inv that have "Some (keyString k) \<in> keyNameOf keyOf ` set cards"
      unfolding grouped_def by blast
    then obtain c where c: "c \<in> set cards" "keyNameOf keyOf c = Some (keyString k)"
      by (metis imageE)
    from keys c(1) obtain k' where "keyOf c = Inr k'"
      "comparable metadata grouping (keyString k')" by blast
    with c(2) show ?thesis by (simp add: keyNameOf_def)
  qed
  have "\<exists>gs. finishGrouping cmp acc = Inr gs"
    if "\<And>a b. a \<in> set (groupings acc) \<Longrightarrow> b \<in> set (groupings acc) \<Longrightarrow> \<exists>r. cmp a b = Inr r"
    for cmp
    using finishGrouping_returns [OF inv] that by blast
  note fin = this
  from dim show ?thesis
  proof (cases grouping)
    case Gtype
    with dim acc fin [of "onStrings (sortTypesByOrder sorting)"] show ?thesis
      by (simp add: groupByTypeCode_def onStrings_def)
  next
    case Gslot
    with dim acc fin [of "onStrings (sortBySlots sorting collator)"] show ?thesis
      by (simp add: groupBySlots_def onStrings_def)
  next
    case Glevel
    with dim acc fin [of "numericalOrder sorting"] show ?thesis
      by (simp add: groupByLevel_def numericalOrder_def)
  next
    case Gfaction
    with dim acc fin [of "onStrings (sortByFactionOrder sorting)"] show ?thesis
      by (simp add: groupByFaction_def onStrings_def)
  next
    case Gencounter_set
    with dim acc fin [of "onStrings (sortByEncounterSet sorting metadata collator)"] show ?thesis
      by (simp add: groupByEncounterSet_def onStrings_def)
  next
    case Gcost
    with dim acc fin [of "numericalOrder sorting"] show ?thesis
      by (simp add: groupByCost_def numericalOrder_def)
  next
    case Gcycle
    with cmpb have "\<exists>r. cycleOrder metadata a b = Inr r"
      if "a \<in> set (groupings acc)" "b \<in> set (groupings acc)" for a b
      using that comparable_cycleOrder by blast
    from fin [OF this] Gcycle dim acc show ?thesis
      by (simp add: groupByCycle_def)
  next
    case Gpack
    with cmpb have "\<exists>r. packOrder metadata a b = Inr r"
      if "a \<in> set (groupings acc)" "b \<in> set (groupings acc)" for a b
      using that comparable_packOrder by blast
    from fin [OF this] Gpack dim acc show ?thesis
      by (simp add: groupByPack_def)
  qed simp_all
qed

end
